theory Spec2Isabelle
  imports Main
begin

section \<open>QuarterLang: AST, IR lowering and the IR interpreter\<close>

text \<open>
  The source holds several revisions of the pipeline. Two of them are embedded here.
  The interpreter revision is the one headed "QuarterLang Compiler/Interpreter -
  Functions & Calls, Stack Frame & Offsets, REPL, Debugger", with \<open>parseExpr\<close>,
  \<open>parseCall\<close>, \<open>parseFunction\<close>, \<open>parse\<close>, \<open>allocateVar\<close>, \<open>lowerFunction\<close>,
  \<open>lower\<close> and \<open>IRInterpreter\<close>. The code-generator revision is the earlier one headed
  "QuarterLang Compiler Pipeline", with \<open>ASTLoop\<close>, the type check in \<open>lower\<close> and
  \<open>X86_64CodeGen\<close>. This first part is the interpreter revision without its parser.
\<close>

subsection \<open>Errors and outcomes\<close>

text \<open>
  Every C++ exception the modelled code can raise is a value. \<open>RuntimeError\<close> carries the
  \<open>what()\<close> text of a \<open>std::runtime_error\<close>; \<open>InvalidArgument\<close> and \<open>OutOfRange\<close>
  are the two exceptions of \<open>std::stoi\<close>; \<open>UndefinedBehaviour\<close> marks the places where
  the C++ has no defined result (an out-of-range \<open>operator[]\<close> on a vector, \<open>back()\<close>
  or \<open>pop_back()\<close> on an empty vector, \<open>back()\<close> of an empty string, a \<open>static_cast\<close> to
  a class the object does not have, signed overflow of \<open>int\<close>). \<open>Exit text status\<close> is the end
  of the process by \<open>exit(status)\<close> after \<open>text\<close> was written to \<open>std::cerr\<close>.
\<close>

datatype error =
    RuntimeError string
  | InvalidArgument
  | OutOfRange
  | UndefinedBehaviour
  | Exit string int

text \<open>
  The interpreter recurses through \<open>call\<close>; a QuarterLang function that calls itself
  never returns. The model counts the nesting depth still allowed (fuel) and reports
  \<open>OutOfFuel\<close> when it is used up.
\<close>

datatype 'a outcome = Returns 'a | Throws error | OutOfFuel

subsection \<open>Characters, \<open>std::to_string\<close> and \<open>std::stoi\<close>\<close>

definition isdigit :: "char \<Rightarrow> bool" where
  "isdigit c = (48 \<le> (of_char c :: nat) \<and> (of_char c :: nat) \<le> 57)"

definition isalpha :: "char \<Rightarrow> bool" where
  "isalpha c = ((65 \<le> (of_char c :: nat) \<and> (of_char c :: nat) \<le> 90) \<or>
                (97 \<le> (of_char c :: nat) \<and> (of_char c :: nat) \<le> 122))"

definition isspace :: "char \<Rightarrow> bool" where
  "isspace c = ((of_char c :: nat) = 32 \<or> (9 \<le> (of_char c :: nat) \<and> (of_char c :: nat) \<le> 13))"

definition digit_char :: "nat \<Rightarrow> char" where
  "digit_char d = char_of (48 + d)"

definition digit_val :: "char \<Rightarrow> nat" where
  "digit_val c = of_char c - 48"

fun digits :: "nat \<Rightarrow> string" where
  "digits n = (if n < 10 then [digit_char n] else digits (n div 10) @ [digit_char (n mod 10)])"

declare digits.simps [simp del]

definition to_string :: "int \<Rightarrow> string" where
  "to_string i = (if i < 0 then CHR ''-'' # digits (nat (- i)) else digits (nat i))"

definition digits_val :: "string \<Rightarrow> nat" where
  "digits_val ds = foldl (\<lambda>a c. 10 * a + digit_val c) 0 ds"

definition INT_MIN :: int where "INT_MIN = - 2147483648"
definition INT_MAX :: int where "INT_MAX = 2147483647"

text \<open>
  \<open>std::stoi(str)\<close>: \<open>strtol\<close> in base 10 skips leading white space, takes an optional
  sign and the longest run of digits, and ignores what follows. No digit:
  \<open>std::invalid_argument\<close>. A value that does not fit \<open>int\<close>: \<open>std::out_of_range\<close>.
\<close>

definition stoi :: "string \<Rightarrow> error + int" where
  "stoi str =
    (let s1 = dropWhile isspace str;
         neg = (case s1 of [] \<Rightarrow> False | c # _ \<Rightarrow> c = CHR ''-'');
         s2 = (case s1 of [] \<Rightarrow> [] | c # r \<Rightarrow> if c = CHR ''-'' \<or> c = CHR ''+'' then r else s1);
         ds = takeWhile isdigit s2
     in if ds = [] then Inl InvalidArgument
        else let v = (if neg then - int (digits_val ds) else int (digits_val ds))
             in if INT_MIN \<le> v \<and> v \<le> INT_MAX then Inr v else Inl OutOfRange)"

subsection \<open>AST\<close>

text \<open>
  \<open>struct ASTExpr\<close> and its subclasses; a \<open>dynamic_cast\<close> chain in the source is a
  \<open>case\<close> on the constructor here. \<open>ASTValDecl name type init\<close>,
  \<open>ASTCall funcName args\<close>, \<open>ASTFunction name params body\<close>. The parser always
  assigns \<open>init\<close>, so it is a node, not an optional one. The field \<open>functions\<close> of
  \<open>ASTProgram\<close> is written \<open>functions'\<close>; it maps a name to the function node that
  the pointer stored under it points to.
\<close>

datatype ASTExpr =
    ASTLiteral string
  | ASTVar string
  | ASTBinary string string string
  | ASTValDecl string string ASTExpr
  | ASTCall string "ASTExpr list"
  | ASTFunction string "string list" "ASTExpr list"

record ASTProgram =
  statements :: "ASTExpr list"
  functions' :: "string \<rightharpoonup> ASTExpr"

subsection \<open>IR\<close>

text \<open>
  \<open>IRInstr\<close>, \<open>BasicBlock\<close> and \<open>IRFunction\<close> with the fields of the source; the field
  \<open>name\<close> of \<open>IRFunction\<close> is written \<open>fname\<close>. A \<open>std::map\<close> or
  \<open>std::unordered_map\<close> is a partial function.
\<close>

datatype IROp = Alloc | Store | Load | Add | Call | Ret | Print

record IRInstr =
  op :: IROp
  args :: "string list"

record BasicBlock =
  name :: string
  instrs :: "IRInstr list"

record IRFunction =
  fname :: string
  params :: "string list"
  blocks :: "BasicBlock list"
  varOffsets :: "string \<rightharpoonup> int"
  stackSize :: int

text \<open>\<open>struct IRProgram { unordered_map<string, IRFunction> functions; }\<close>\<close>

type_synonym IRProgram = "string \<rightharpoonup> IRFunction"

definition instr :: "IROp \<Rightarrow> string list \<Rightarrow> IRInstr" where
  "instr o' as = \<lparr>op = o', args = as\<rparr>"

subsection \<open>Lowering\<close>

text \<open>\<open>allocateVar\<close>: the slot is the old \<open>stackSize\<close>, which is then incremented.\<close>

definition allocateVar :: "IRFunction \<Rightarrow> string \<Rightarrow> int \<times> IRFunction" where
  "allocateVar fn nm =
    (let ofs = stackSize fn
     in (ofs, fn\<lparr>varOffsets := (varOffsets fn)(nm \<mapsto> ofs), stackSize := stackSize fn + 1\<rparr>))"

text \<open>
  The argument list of a lowered call: literals and variables contribute their text,
  any other argument node is skipped.
\<close>

fun lowerArgs :: "ASTExpr list \<Rightarrow> string list" where
  "lowerArgs [] = []"
| "lowerArgs (ASTLiteral v # as) = v # lowerArgs as"
| "lowerArgs (ASTVar v # as) = v # lowerArgs as"
| "lowerArgs (_ # as) = lowerArgs as"

text \<open>
  One iteration of the statement loop of \<open>lowerFunction\<close>; the state is the function
  under construction and the instructions of its \<open>entry\<close> block so far.
\<close>

fun lowerFunctionStmt :: "IRFunction \<times> IRInstr list \<Rightarrow> ASTExpr \<Rightarrow> IRFunction \<times> IRInstr list" where
  "lowerFunctionStmt (irFunc, entry) (ASTValDecl nm ty init) =
    (let (ofs, irFunc') = allocateVar irFunc nm;
         entry' = entry @ [instr Alloc [nm, to_string ofs]]
     in case init of
          ASTLiteral v \<Rightarrow> (irFunc', entry' @ [instr Store [nm, v]])
        | ASTVar v \<Rightarrow> (irFunc', entry' @ [instr Store [nm, v]])
        | ASTBinary l o' r \<Rightarrow> (irFunc', entry' @ [instr Add [nm, l, r]])
        | _ \<Rightarrow> (irFunc', entry'))"
| "lowerFunctionStmt (irFunc, entry) (ASTCall f as) =
    (irFunc, entry @ [instr Call (f # lowerArgs as)])"
| "lowerFunctionStmt (irFunc, entry) _ = (irFunc, entry)"

text \<open>The parameter loop of \<open>lowerFunction\<close>: \<open>varOffsets[p] = argIdx++\<close>.
  \<open>lowerFunction\<close> itself returns the function it builds; storing it in the program
  is done by its caller below.\<close>

fun paramOffsets :: "string list \<Rightarrow> int \<Rightarrow> (string \<rightharpoonup> int) \<Rightarrow> (string \<rightharpoonup> int)" where
  "paramOffsets [] argIdx m = m"
| "paramOffsets (p # ps) argIdx m = paramOffsets ps (argIdx + 1) (m(p \<mapsto> argIdx))"

definition lowerFunction :: "string \<Rightarrow> string list \<Rightarrow> ASTExpr list \<Rightarrow> IRFunction" where
  "lowerFunction nm ps body =
    (let irFunc = \<lparr>fname = nm, params = ps, blocks = [],
                    varOffsets = paramOffsets ps 0 Map.empty, stackSize = int (length ps)\<rparr>;
         (irFunc', entry) = foldl lowerFunctionStmt (irFunc, []) body
     in irFunc'\<lparr>blocks := [\<lparr>name = nm @ ''_entry'', instrs = entry\<rparr>]\<rparr>)"

text \<open>The first loop of \<open>lower\<close>: every \<open>ASTFunction\<close> statement is lowered and stored
  under its name (a later function of the same name replaces an earlier one).\<close>

fun lowerFunctions :: "ASTExpr list \<Rightarrow> IRProgram \<Rightarrow> IRProgram" where
  "lowerFunctions [] irprog = irprog"
| "lowerFunctions (ASTFunction nm ps body # stmts) irprog =
    lowerFunctions stmts (irprog(nm \<mapsto> lowerFunction nm ps body))"
| "lowerFunctions (_ # stmts) irprog = lowerFunctions stmts irprog"

text \<open>
  One iteration of the second loop of \<open>lower\<close>, which builds \<open>_main\<close>. A declaration
  emits \<open>Alloc\<close> always and \<open>Store\<close> only for a literal initializer.
\<close>

fun lowerMainStmt :: "IRFunction \<times> IRInstr list \<Rightarrow> ASTExpr \<Rightarrow> IRFunction \<times> IRInstr list" where
  "lowerMainStmt (mainFn, entry) (ASTFunction nm ps body) = (mainFn, entry)"
| "lowerMainStmt (mainFn, entry) (ASTValDecl nm ty init) =
    (let (ofs, mainFn') = allocateVar mainFn nm;
         entry' = entry @ [instr Alloc [nm, to_string ofs]]
     in case init of
          ASTLiteral v \<Rightarrow> (mainFn', entry' @ [instr Store [nm, v]])
        | _ \<Rightarrow> (mainFn', entry'))"
| "lowerMainStmt (mainFn, entry) (ASTCall f as) =
    (mainFn, entry @ [instr Call (f # lowerArgs as)])"
| "lowerMainStmt (mainFn, entry) _ = (mainFn, entry)"

definition lowerMain :: "ASTExpr list \<Rightarrow> IRFunction" where
  "lowerMain stmts =
    (let mainFn = \<lparr>fname = ''_main'', params = [], blocks = [],
                    varOffsets = Map.empty, stackSize = 0\<rparr>;
         (mainFn', entry) = foldl lowerMainStmt (mainFn, []) stmts
     in mainFn'\<lparr>blocks := [\<lparr>name = ''entry'', instrs = entry\<rparr>]\<rparr>)"

definition lower :: "ASTProgram \<Rightarrow> IRProgram" where
  "lower program =
    (lowerFunctions (statements program) Map.empty)(''_main'' \<mapsto> lowerMain (statements program))"

subsection \<open>Interpreter\<close>

record StackFrame =
  vars :: "string \<rightharpoonup> int"
  retAddr :: int

text \<open>
  The state of an \<open>IRInterpreter\<close>: \<open>callStack\<close> with the most recently pushed frame
  first (the head of the list is \<open>callStack.back()\<close>), and the lines written to
  \<open>std::cout\<close> by \<open>say\<close>.
\<close>

record interp =
  callStack :: "StackFrame list"
  cout :: "int list"

text \<open>
  \<open>valueOf\<close>: from \<open>rbegin()\<close> to \<open>rend()\<close>, the first frame that binds the name gives
  the value; with no such frame, \<open>std::stoi(name)\<close>.
\<close>

fun valueOf :: "string \<Rightarrow> StackFrame list \<Rightarrow> error + int" where
  "valueOf nm [] = stoi nm"
| "valueOf nm (f # fs) = (case vars f nm of Some v \<Rightarrow> Inr v | None \<Rightarrow> valueOf nm fs)"

text \<open>\<open>callStack.back().vars[nm] = v\<close>\<close>

definition setVar :: "string \<Rightarrow> int \<Rightarrow> interp \<Rightarrow> interp outcome" where
  "setVar nm v st =
    (case callStack st of
       [] \<Rightarrow> Throws UndefinedBehaviour
     | f # fs \<Rightarrow> Returns (st\<lparr>callStack := f\<lparr>vars := (vars f)(nm \<mapsto> v)\<rparr> # fs\<rparr>))"

text \<open>The argument loop of the \<open>Call\<close> case of \<open>step\<close>.\<close>

fun valuesOf :: "string list \<Rightarrow> StackFrame list \<Rightarrow> error + int list" where
  "valuesOf [] fs = Inr []"
| "valuesOf (a # as) fs =
    (case valueOf a fs of
       Inl e \<Rightarrow> Inl e
     | Inr v \<Rightarrow> (case valuesOf as fs of Inl e \<Rightarrow> Inl e | Inr vs \<Rightarrow> Inr (v # vs)))"

text \<open>
  \<open>step\<close>. Its recursive use of \<open>call\<close> is the parameter \<open>callf\<close>. The right-hand side
  of each assignment is evaluated before the map entry is created (C++17 order). The
  sum of two \<open>int\<close>s outside the range of \<open>int\<close> is undefined behaviour.
\<close>

definition step ::
  "(string \<Rightarrow> int list \<Rightarrow> interp \<Rightarrow> (int \<times> interp) outcome) \<Rightarrow> IRInstr \<Rightarrow> interp \<Rightarrow> interp outcome" where
  "step callf i st =
    (if op i = Alloc then
       (case args i of
          a0 # _ \<Rightarrow> setVar a0 0 st
        | _ \<Rightarrow> Throws UndefinedBehaviour)
     else if op i = Store then
       (case args i of
          a0 # a1 # _ \<Rightarrow> (case stoi a1 of Inl e \<Rightarrow> Throws e | Inr v \<Rightarrow> setVar a0 v st)
        | _ \<Rightarrow> Throws UndefinedBehaviour)
     else if op i = Add then
       (case args i of
          a0 # a1 # a2 # _ \<Rightarrow>
            (case valueOf a1 (callStack st) of
               Inl e \<Rightarrow> Throws e
             | Inr v1 \<Rightarrow>
                 (case valueOf a2 (callStack st) of
                    Inl e \<Rightarrow> Throws e
                  | Inr v2 \<Rightarrow>
                      if INT_MIN \<le> v1 + v2 \<and> v1 + v2 \<le> INT_MAX then setVar a0 (v1 + v2) st
                      else Throws UndefinedBehaviour))
        | _ \<Rightarrow> Throws UndefinedBehaviour)
     else if op i = Call then
       (case valuesOf (tl (args i)) (callStack st) of
          Inl e \<Rightarrow> Throws e
        | Inr vs \<Rightarrow>
            (case args i of
               [] \<Rightarrow> Throws UndefinedBehaviour
             | a0 # _ \<Rightarrow>
                 if a0 = ''say'' then Returns (st\<lparr>cout := cout st @ vs\<rparr>)
                 else (case callf a0 vs st of
                         Returns (r, st') \<Rightarrow> Returns st'
                       | Throws e \<Rightarrow> Throws e
                       | OutOfFuel \<Rightarrow> OutOfFuel)))
     else Returns st)"

text \<open>The two nested loops of \<open>execFunc\<close>.\<close>

fun execInstrs ::
  "(string \<Rightarrow> int list \<Rightarrow> interp \<Rightarrow> (int \<times> interp) outcome) \<Rightarrow> IRInstr list \<Rightarrow> interp \<Rightarrow> interp outcome" where
  "execInstrs callf [] st = Returns st"
| "execInstrs callf (i # is) st =
    (case step callf i st of
       Returns st' \<Rightarrow> execInstrs callf is st'
     | Throws e \<Rightarrow> Throws e
     | OutOfFuel \<Rightarrow> OutOfFuel)"

fun execBlocks ::
  "(string \<Rightarrow> int list \<Rightarrow> interp \<Rightarrow> (int \<times> interp) outcome) \<Rightarrow> BasicBlock list \<Rightarrow> interp \<Rightarrow> interp outcome" where
  "execBlocks callf [] st = Returns st"
| "execBlocks callf (b # bs) st =
    (case execInstrs callf (instrs b) st of
       Returns st' \<Rightarrow> execBlocks callf bs st'
     | Throws e \<Rightarrow> Throws e
     | OutOfFuel \<Rightarrow> OutOfFuel)"

definition execFunc ::
  "(string \<Rightarrow> int list \<Rightarrow> interp \<Rightarrow> (int \<times> interp) outcome) \<Rightarrow> IRFunction \<Rightarrow> interp \<Rightarrow> (int \<times> interp) outcome" where
  "execFunc callf fn st =
    (case execBlocks callf (blocks fn) st of
       Returns st' \<Rightarrow> Returns (0, st')
     | Throws e \<Rightarrow> Throws e
     | OutOfFuel \<Rightarrow> OutOfFuel)"

text \<open>The parameter loop of \<open>call\<close>: \<open>frame.vars[p] = args[idx++]\<close>; an index past the
  end of \<open>args\<close> is undefined behaviour, surplus arguments are not read.\<close>

fun bindParams :: "string list \<Rightarrow> int list \<Rightarrow> (string \<rightharpoonup> int) \<Rightarrow> error + (string \<rightharpoonup> int)" where
  "bindParams [] as m = Inr m"
| "bindParams (p # ps) [] m = Inl UndefinedBehaviour"
| "bindParams (p # ps) (a # as) m = bindParams ps as (m(p \<mapsto> a))"

definition pushFrame :: "StackFrame \<Rightarrow> interp \<Rightarrow> interp" where
  "pushFrame f st = st\<lparr>callStack := f # callStack st\<rparr>"

text \<open>
  \<open>call\<close>. The first argument is the nesting depth still allowed. An exception leaves
  the function before \<open>pop_back\<close>.
\<close>

fun call :: "nat \<Rightarrow> IRProgram \<Rightarrow> string \<Rightarrow> int list \<Rightarrow> interp \<Rightarrow> (int \<times> interp) outcome" where
  "call 0 prog nm as st = OutOfFuel"
| "call (Suc k) prog nm as st =
    (case prog nm of
       None \<Rightarrow> Throws (RuntimeError (''No such function: '' @ nm))
     | Some fn \<Rightarrow>
         (case bindParams (params fn) as Map.empty of
            Inl e \<Rightarrow> Throws e
          | Inr vs \<Rightarrow>
              (case execFunc (call k prog) fn (pushFrame \<lparr>vars = vs, retAddr = - 1\<rparr> st) of
                 Returns (result, st') \<Rightarrow>
                   (case callStack st' of
                      [] \<Rightarrow> Throws UndefinedBehaviour
                    | _ # fs \<Rightarrow> Returns (result, st'\<lparr>callStack := fs\<rparr>))
               | Throws e \<Rightarrow> Throws e
               | OutOfFuel \<Rightarrow> OutOfFuel)))"

definition execMain :: "nat \<Rightarrow> IRProgram \<Rightarrow> interp \<Rightarrow> (int \<times> interp) outcome" where
  "execMain k prog st = call k prog ''_main'' [] st"

section \<open>The code-generator revision\<close>

text \<open>
  The revision headed "QuarterLang Compiler Pipeline" has its own AST (with \<open>ASTLoop\<close>
  and without variables, calls and functions), its own \<open>IROp\<close>, a \<open>lower\<close> that builds
  one \<open>IRFunction\<close>, and \<open>X86_64CodeGen\<close>. Its names carry the suffix \<open>_cg\<close> where they
  would clash with the names above.
\<close>

datatype ASTExpr_cg =
    ASTLiteral_cg string
  | ASTBinary_cg string string string
  | ASTValDecl_cg string string ASTExpr_cg
  | ASTLoop_cg ASTExpr_cg ASTExpr_cg "ASTExpr_cg list"

datatype IROp_cg =
    Alloc_cg | Store_cg | Load_cg | Add_cg | Sub_cg | Mul_cg | Div_cg
  | Jump_cg | CondJump_cg | Call_cg | Ret_cg | DgAdd_cg | DgToDec_cg | DecToDg_cg

record IRInstr_cg =
  op_cg :: IROp_cg
  args_cg :: "string list"

text \<open>\<open>trueBranch\<close> and \<open>falseBranch\<close> of \<open>BasicBlock\<close> are never assigned or read and
  are left out.\<close>

record BasicBlock_cg =
  name_cg :: string
  instrs_cg :: "IRInstr_cg list"

record IRFunction_cg =
  fname_cg :: string
  blocks_cg :: "BasicBlock_cg list"

definition instr_cg :: "IROp_cg \<Rightarrow> string list \<Rightarrow> IRInstr_cg" where
  "instr_cg o' as = \<lparr>op_cg = o', args_cg = as\<rparr>"

text \<open>\<open>static_cast<ASTLiteral*>(e)->value\<close>: defined only when the node is a literal.\<close>

definition literal_value :: "ASTExpr_cg \<Rightarrow> error + string" where
  "literal_value e = (case e of ASTLiteral_cg v \<Rightarrow> Inr v | _ \<Rightarrow> Inl UndefinedBehaviour)"

text \<open>The loop over the body of an \<open>ASTLoop\<close>: declarations only, with no check of the
  declared type.\<close>

fun lowerLoopBody :: "ASTExpr_cg list \<Rightarrow> IRInstr_cg list \<Rightarrow> error + IRInstr_cg list" where
  "lowerLoopBody [] loopBody = Inr loopBody"
| "lowerLoopBody (ASTValDecl_cg nm ty init # inner) loopBody =
    (case literal_value init of
       Inl e \<Rightarrow> Inl e
     | Inr v \<Rightarrow> lowerLoopBody inner (loopBody @ [instr_cg Alloc_cg [nm], instr_cg Store_cg [nm, v]]))"
| "lowerLoopBody (_ # inner) loopBody = lowerLoopBody inner loopBody"

text \<open>
  One iteration of the statement loop of \<open>lower\<close>. The state is \<open>fn.blocks\<close> and the
  instructions of \<open>entry\<close> so far.
\<close>

fun lowerStmt_cg ::
  "BasicBlock_cg list \<times> IRInstr_cg list \<Rightarrow> ASTExpr_cg \<Rightarrow> error + BasicBlock_cg list \<times> IRInstr_cg list" where
  "lowerStmt_cg (blks, entry) (ASTValDecl_cg nm ty init) =
    (if ty \<noteq> ''int'' then Inl (Exit ''Type error: Only 'int' is supported.'' 1)
     else
       (case init of
          ASTBinary_cg l o' r \<Rightarrow>
            Inr (blks, entry @ [instr_cg Alloc_cg [nm], instr_cg Store_cg [nm, l],
                                instr_cg (if o' = ''+'' then Add_cg else if o' = ''-'' then Sub_cg else Add_cg)
                                  [nm, r]])
        | _ \<Rightarrow>
            (case literal_value init of
               Inl e \<Rightarrow> Inl e
             | Inr v \<Rightarrow> Inr (blks, entry @ [instr_cg Alloc_cg [nm], instr_cg Store_cg [nm, v]]))))"
| "lowerStmt_cg (blks, entry) (ASTLoop_cg start end' body) =
    (case literal_value start of
       Inl e \<Rightarrow> Inl e
     | Inr s \<Rightarrow>
         (case literal_value end' of
            Inl e \<Rightarrow> Inl e
          | Inr b \<Rightarrow>
              (case lowerLoopBody body [] of
                 Inl e \<Rightarrow> Inl e
               | Inr inner \<Rightarrow>
                   Inr (blks @
                          [\<lparr>name_cg = ''loop_cond'',
                             instrs_cg = [instr_cg CondJump_cg [''i'', b, ''loop_end''],
                                          instr_cg Jump_cg [''loop_body'']]\<rparr>,
                           \<lparr>name_cg = ''loop_body'',
                             instrs_cg = inner @ [instr_cg Add_cg [''i'', ''1''],
                                                  instr_cg Jump_cg [''loop_cond'']]\<rparr>,
                           \<lparr>name_cg = ''loop_end'', instrs_cg = []\<rparr>],
                        entry @ [instr_cg Alloc_cg [''i''], instr_cg Store_cg [''i'', s],
                                 instr_cg Jump_cg [''loop_cond'']]))))"
| "lowerStmt_cg (blks, entry) _ = Inr (blks, entry)"

fun lowerStmts_cg ::
  "ASTExpr_cg list \<Rightarrow> BasicBlock_cg list \<times> IRInstr_cg list \<Rightarrow> error + BasicBlock_cg list \<times> IRInstr_cg list" where
  "lowerStmts_cg [] acc = Inr acc"
| "lowerStmts_cg (s # ss) acc =
    (case lowerStmt_cg acc s of Inl e \<Rightarrow> Inl e | Inr acc' \<Rightarrow> lowerStmts_cg ss acc')"

text \<open>\<open>lower\<close> of this revision; \<open>entry\<close> is appended after the blocks of the loops.\<close>

definition lower_cg :: "ASTExpr_cg list \<Rightarrow> error + IRFunction_cg" where
  "lower_cg stmts =
    (case lowerStmts_cg stmts ([], []) of
       Inl e \<Rightarrow> Inl e
     | Inr (blks, entry) \<Rightarrow>
         Inr \<lparr>fname_cg = ''_main'', blocks_cg = blks @ [\<lparr>name_cg = ''entry'', instrs_cg = entry\<rparr>]\<rparr>)"

text \<open>
  \<open>X86_64CodeGen::emitInstr\<close>: the lines written to \<open>std::cout\<close> for one instruction,
  each without its final newline. An operand index past the end of \<open>args\<close> is undefined
  behaviour.
\<close>

definition emitInstr :: "IRInstr_cg \<Rightarrow> error + string list" where
  "emitInstr i =
    (case (op_cg i, args_cg i) of
       (Add_cg, a0 # a1 # _) \<Rightarrow> Inr [''  add '' @ a0 @ '', '' @ a1]
     | (Sub_cg, a0 # a1 # _) \<Rightarrow> Inr [''  sub '' @ a0 @ '', '' @ a1]
     | (Mul_cg, a0 # a1 # _) \<Rightarrow> Inr [''  imul '' @ a0 @ '', '' @ a1]
     | (Div_cg, a0 # a1 # _) \<Rightarrow> Inr [''  xor rdx, rdx'', ''  mov rax, '' @ a0, ''  div '' @ a1]
     | (Alloc_cg, a0 # _) \<Rightarrow> Inr [''  ; alloc '' @ a0]
     | (Store_cg, a0 # a1 # _) \<Rightarrow> Inr [''  mov ['' @ a0 @ ''], '' @ a1]
     | (Load_cg, a0 # _) \<Rightarrow> Inr [''  mov rax, ['' @ a0 @ '']'']
     | (Jump_cg, a0 # _) \<Rightarrow> Inr [''  jmp '' @ a0]
     | (CondJump_cg, a0 # a1 # a2 # _) \<Rightarrow> Inr [''  cmp '' @ a0 @ '', '' @ a1, ''  jne '' @ a2]
     | (Call_cg, a0 # _) \<Rightarrow> Inr [''  call '' @ a0]
     | (Ret_cg, _) \<Rightarrow> Inr [''  ret'']
     | (DgToDec_cg, _) \<Rightarrow> Inr [''  call to_dg'']
     | (DecToDg_cg, _) \<Rightarrow> Inr [''  call from_dg'']
     | (DgAdd_cg, _) \<Rightarrow> Inr [''  call dg_add'']
     | _ \<Rightarrow> Inl UndefinedBehaviour)"

section \<open>Parsing\<close>

subsection \<open>\<open>std::istringstream\<close>\<close>

text \<open>
  The parsers read a \<open>std::istringstream\<close>. Its state here is the text, the read
  position and the two state bits the code depends on. The operations follow the C++
  standard (C++11 and later): every input function first constructs a \<open>sentry\<close>, which
  sets \<open>failbit\<close> when the stream is not \<open>good()\<close>; a formatted extraction skips white
  space first and sets \<open>eofbit\<close> and \<open>failbit\<close> when it finds none but white space; a
  failed \<open>in >> str\<close> leaves \<open>str\<close> as it was; \<open>seekg\<close> clears \<open>eofbit\<close>.
\<close>

record istream =
  buf :: string
  pos :: nat
  eofbit :: bool
  failbit :: bool

definition good :: "istream \<Rightarrow> bool" where
  "good s = (\<not> eofbit s \<and> \<not> failbit s)"

text \<open>The next character, if there is one, without moving (\<open>rdbuf()->sgetc()\<close>).\<close>

definition sgetc :: "istream \<Rightarrow> char option" where
  "sgetc s = (if pos s < length (buf s) then Some (buf s ! pos s) else None)"

text \<open>Moving past the white space at the read position.\<close>

definition skip_space :: "istream \<Rightarrow> istream" where
  "skip_space s = s\<lparr>pos := pos s + length (takeWhile isspace (drop (pos s) (buf s)))\<rparr>"

text \<open>
  The constructor of \<open>istream::sentry\<close>, with its \<open>noskipws\<close> argument; the first
  component of the result is the sentry's \<open>operator bool\<close>.
\<close>

definition sentry :: "bool \<Rightarrow> istream \<Rightarrow> bool \<times> istream" where
  "sentry noskipws s =
    (if good s then
       (if noskipws then (True, s)
        else (let s' = skip_space s
              in if sgetc s' = None then (False, s'\<lparr>eofbit := True, failbit := True\<rparr>)
                 else (True, s')))
     else (False, s\<lparr>failbit := True\<rparr>))"

text \<open>
  \<open>in >> str\<close> for a \<open>std::string\<close>: the first argument is \<open>str\<close> before, the first
  component of the result is \<open>str\<close> after. The token runs up to the next white space
  or the end of the text; reaching the end sets \<open>eofbit\<close>.
\<close>

definition read_string :: "string \<Rightarrow> istream \<Rightarrow> string \<times> istream" where
  "read_string str s =
    (case sentry False s of
       (False, s1) \<Rightarrow> (str, s1)
     | (True, s1) \<Rightarrow>
         (let tok = takeWhile (\<lambda>c. \<not> isspace c) (drop (pos s1) (buf s1));
              s2 = s1\<lparr>pos := pos s1 + length tok\<rparr>
          in (tok, if sgetc s2 = None then s2\<lparr>eofbit := True\<rparr> else s2)))"

text \<open>\<open>in >> ch\<close> for a \<open>char\<close>.\<close>

definition read_char :: "char \<Rightarrow> istream \<Rightarrow> char \<times> istream" where
  "read_char ch s =
    (case sentry False s of
       (False, s1) \<Rightarrow> (ch, s1)
     | (True, s1) \<Rightarrow>
         (case sgetc s1 of
            None \<Rightarrow> (ch, s1\<lparr>eofbit := True, failbit := True\<rparr>)
          | Some c \<Rightarrow> (c, s1\<lparr>pos := pos s1 + 1\<rparr>)))"

text \<open>\<open>in.peek()\<close>; \<open>None\<close> is \<open>traits::eof()\<close>.\<close>

definition peek :: "istream \<Rightarrow> char option \<times> istream" where
  "peek s =
    (case sentry True s of
       (False, s1) \<Rightarrow> (None, s1)
     | (True, s1) \<Rightarrow>
         (case sgetc s1 of
            None \<Rightarrow> (None, s1\<lparr>eofbit := True\<rparr>)
          | Some c \<Rightarrow> (Some c, s1)))"

text \<open>\<open>in.ignore(1)\<close>\<close>

definition ignore1 :: "istream \<Rightarrow> istream" where
  "ignore1 s =
    (case sentry True s of
       (False, s1) \<Rightarrow> s1
     | (True, s1) \<Rightarrow>
         (case sgetc s1 of
            None \<Rightarrow> s1\<lparr>eofbit := True\<rparr>
          | Some c \<Rightarrow> s1\<lparr>pos := pos s1 + 1\<rparr>))"

text \<open>\<open>in >> std::ws\<close>: at the end of the text it sets \<open>eofbit\<close> and not \<open>failbit\<close>.\<close>

definition ws :: "istream \<Rightarrow> istream" where
  "ws s =
    (case sentry True s of
       (False, s1) \<Rightarrow> s1
     | (True, s1) \<Rightarrow>
         (let s2 = skip_space s1 in if sgetc s2 = None then s2\<lparr>eofbit := True\<rparr> else s2))"

text \<open>\<open>in.tellg()\<close>: \<open>-1\<close> when the stream has failed.\<close>

definition tellg :: "istream \<Rightarrow> int \<times> istream" where
  "tellg s =
    (case sentry True s of
       (ok, s1) \<Rightarrow> (if failbit s1 then - 1 else int (pos s1), s1))"

text \<open>\<open>in.seekg(pos)\<close>: a position outside the text sets \<open>failbit\<close>.\<close>

definition seekg :: "int \<Rightarrow> istream \<Rightarrow> istream" where
  "seekg p s =
    (case sentry True (s\<lparr>eofbit := False\<rparr>) of
       (ok, s1) \<Rightarrow>
         if failbit s1 then s1
         else if 0 \<le> p \<and> p \<le> int (length (buf s1)) then s1\<lparr>pos := nat p\<rparr>
         else s1\<lparr>failbit := True\<rparr>)"

subsection \<open>The parser of the interpreter revision\<close>

text \<open>
  \<open>token[0]\<close> of an empty \<open>std::string\<close> is the null character. \<open>parseExpr\<close>,
  \<open>parseCall\<close> and the argument loop of \<open>parseCall\<close> (\<open>parseArgs\<close>) call one another.
  Results are pairs of the value returned and the stream afterwards.
\<close>

definition char0 :: "string \<Rightarrow> char" where
  "char0 token = (case token of [] \<Rightarrow> CHR 0x00 | c # _ \<Rightarrow> c)"

definition is_operator :: "string \<Rightarrow> bool" where
  "is_operator op' = (op' = ''+'' \<or> op' = ''-'' \<or> op' = ''*'' \<or> op' = ''/'')"

function parseExpr :: "istream \<Rightarrow> ASTExpr \<times> istream"
  and parseCall :: "string \<Rightarrow> istream \<Rightarrow> ASTExpr \<times> istream"
  and parseArgs :: "istream \<Rightarrow> ASTExpr list \<times> istream" where
  "parseExpr s =
    (case read_string [] s of
       (token, s1) \<Rightarrow>
         if isdigit (char0 token) then (ASTLiteral token, s1)
         else if isalpha (char0 token) then
           (case peek s1 of
              (c, s2) \<Rightarrow>
                if c = Some CHR ''('' then parseCall token s2
                else
                  (case tellg s2 of
                     (oldpos, s3) \<Rightarrow>
                       (case read_string [] s3 of
                          (op', s4) \<Rightarrow>
                            if \<not> failbit s4 then
                              (if is_operator op' then
                                 (case read_string [] s4 of
                                    (rhs, s5) \<Rightarrow> (ASTBinary token op' rhs, s5))
                               else (ASTVar token, seekg oldpos s4))
                            else (ASTVar token, s4))))
         else (ASTLiteral token, s1))"
| "parseCall funcName s =
    (case read_char (CHR 0x00) s of
       (ch, s1) \<Rightarrow>
         (case parseArgs s1 of
            (args', s2) \<Rightarrow> (ASTCall funcName args', ignore1 s2)))"
| "parseArgs s =
    (case peek s of
       (c, s1) \<Rightarrow>
         if c \<noteq> Some CHR '')'' then
           (let s2 = ws s1
            in if \<not> failbit s2 then
                 (case parseExpr s2 of
                    (e, s3) \<Rightarrow>
                      (case peek s3 of
                         (c', s4) \<Rightarrow>
                           (case parseArgs (if c' = Some CHR '','' then ignore1 s4 else s4) of
                              (es, s6) \<Rightarrow> (e # es, s6))))
               else ([], s2))
         else ([], s1))"
  by pat_completeness auto


text \<open>
  Termination. The measure of a stream is 0 once \<open>failbit\<close> is set and otherwise one
  more than the number of characters left; no operation of the parser but \<open>seekg\<close>
  increases it, and \<open>parseExpr\<close> seeks back only to the end of the token it has read.
\<close>

definition avail :: "istream \<Rightarrow> nat" where
  "avail s = (if failbit s then 0 else 1 + (length (buf s) - pos s))"

lemma sentry_props:
  assumes "sentry b s = (ok, s1)"
  shows "buf s1 = buf s" and "avail s1 \<le> avail s" and "ok \<longleftrightarrow> \<not> failbit s1" and "ok \<Longrightarrow> good s \<and> good s1"
    and "ok \<Longrightarrow> pos s \<le> pos s1" and "ok \<Longrightarrow> b \<Longrightarrow> s1 = s"
    and "ok \<Longrightarrow> \<not> b \<Longrightarrow> \<exists>c. sgetc s1 = Some c \<and> \<not> isspace c"
proof -
  have tw: "sgetc (skip_space s) = Some c \<Longrightarrow> \<not> isspace c" for c
  proof -
    assume a: "sgetc (skip_space s) = Some c"
    let ?r = "drop (pos s) (buf s)"
    let ?n = "length (takeWhile isspace ?r)"
    from a have lt: "pos s + ?n < length (buf s)" and c: "c = buf s ! (pos s + ?n)"
      by (auto simp: sgetc_def skip_space_def split: if_splits)
    then have n: "?n < length ?r" by simp
    have "?r ! ?n = c" using lt c by simp
    moreover have "\<not> isspace (?r ! ?n)" using n by (rule nth_length_takeWhile)
    ultimately show ?thesis by simp
  qed
  show "buf s1 = buf s" "avail s1 \<le> avail s" "ok \<longleftrightarrow> \<not> failbit s1" "ok \<Longrightarrow> good s \<and> good s1"
    "ok \<Longrightarrow> pos s \<le> pos s1" "ok \<Longrightarrow> b \<Longrightarrow> s1 = s"
    using assms
    by (auto simp: sentry_def avail_def good_def skip_space_def Let_def split: if_splits)
  show "ok \<Longrightarrow> \<not> b \<Longrightarrow> \<exists>c. sgetc s1 = Some c \<and> \<not> isspace c"
    using assms tw
    by (auto simp: sentry_def Let_def split: if_splits)
qed


text \<open>The stream stands right after a token: at the end of the text, with \<open>eofbit\<close> set, or
  before a white-space character with \<open>eofbit\<close> clear.\<close>

definition after_token :: "istream \<Rightarrow> bool" where
  "after_token s = (case sgetc s of None \<Rightarrow> eofbit s | Some c \<Rightarrow> isspace c \<and> \<not> eofbit s)"

lemma read_string_cases:
  assumes "read_string str s = (tok, s1)"
  shows "buf s1 = buf s" and "avail s1 \<le> avail s"
    and "failbit s1 \<Longrightarrow> tok = str"
    and "\<not> failbit s1 \<Longrightarrow>
           \<not> failbit s \<and> tok \<noteq> [] \<and> \<not> isspace (hd tok) \<and> pos s < pos s1 \<and>
           pos s1 \<le> length (buf s) \<and> after_token s1"
proof -
  obtain ok s0 where se: "sentry False s = (ok, s0)" by (cases "sentry False s")
  note sp = sentry_props[OF se]
  show "buf s1 = buf s" using assms se sp(1)
    by (cases ok) (auto simp: read_string_def Let_def split: if_splits)
  show "avail s1 \<le> avail s" using assms se sp(2)
    by (cases ok) (auto simp: read_string_def Let_def avail_def split: if_splits)
  show "failbit s1 \<Longrightarrow> tok = str" using assms se sp(3)
    by (cases ok) (auto simp: read_string_def Let_def split: if_splits)
  show "\<not> failbit s \<and> tok \<noteq> [] \<and> \<not> isspace (hd tok) \<and> pos s < pos s1 \<and>
           pos s1 \<le> length (buf s) \<and> after_token s1" if nf: "\<not> failbit s1"
  proof -
    have ok: ok using assms se sp(3) nf by (cases ok) (auto simp: read_string_def)
    let ?r = "drop (pos s0) (buf s0)"
    let ?tok = "takeWhile (\<lambda>c. \<not> isspace c) ?r"
    let ?s2 = "s0\<lparr>pos := pos s0 + length ?tok\<rparr>"
    from assms se ok have tok: "tok = ?tok"
      and s1: "s1 = (if sgetc ?s2 = None then ?s2\<lparr>eofbit := True\<rparr> else ?s2)"
      by (auto simp: read_string_def Let_def)
    from sp(7)[OF ok] obtain c where c: "sgetc s0 = Some c" "\<not> isspace c" by auto
    then have lt: "pos s0 < length (buf s0)" and c0: "c = buf s0 ! pos s0"
      by (auto simp: sgetc_def split: if_splits)
    then have r: "?r = c # drop (Suc (pos s0)) (buf s0)"
      by (simp add: Cons_nth_drop_Suc)
    have tne: "?tok \<noteq> []" and hd: "hd ?tok = c" using c(2) by (simp_all add: r)
    have le: "length ?tok \<le> length ?r" by (rule length_takeWhile_le)
    then have ple: "pos s0 + length ?tok \<le> length (buf s0)" using lt by simp
    have g: "good s" "good s0" using sp(4)[OF ok] by simp_all
    have at: "after_token s1"
    proof (cases "pos s0 + length ?tok < length (buf s0)")
      case True
      then have n: "length ?tok < length ?r" by simp
      have "\<not> \<not> isspace (?r ! length ?tok)" using n by (rule nth_length_takeWhile)
      then have "isspace (buf s0 ! (pos s0 + length ?tok))" using True by simp
      then show ?thesis using True s1 g by (simp add: after_token_def sgetc_def good_def)
    next
      case False
      then show ?thesis using s1 by (simp add: after_token_def sgetc_def)
    qed
    have l0: "0 < length ?tok" using tne by simp
    have ps1: "pos s1 = pos s0 + length ?tok" using s1 by simp
    have "pos s < pos s1" unfolding ps1 using sp(5)[OF ok] l0 by linarith
    moreover have "pos s1 \<le> length (buf s)" unfolding ps1 using ple sp(1) by simp
    ultimately show ?thesis using g tok tne hd c(2) at by (simp add: good_def)
  qed
qed

lemma read_char_props:
  assumes "read_char ch s = (c, s1)"
  shows "buf s1 = buf s" and "avail s1 \<le> avail s"
proof -
  obtain ok s0 where se: "sentry False s = (ok, s0)" by (cases "sentry False s")
  note sp = sentry_props[OF se]
  show "buf s1 = buf s" using assms se sp(1)
    by (cases ok) (auto simp: read_char_def split: option.splits)
  show "avail s1 \<le> avail s" using assms se sp(2)
    by (cases ok) (auto simp: read_char_def avail_def split: option.splits if_splits)
qed

lemma peek_props:
  assumes "peek s = (c, s1)"
  shows "buf s1 = buf s" and "avail s1 \<le> avail s" and "pos s1 = pos s"
    and "\<not> failbit s1 \<Longrightarrow> \<not> failbit s"
    and "c \<noteq> None \<Longrightarrow> s1 = s \<and> good s \<and> sgetc s = c"
    and "\<not> failbit s1 \<Longrightarrow> c = None \<Longrightarrow> eofbit s1"
proof -
  obtain ok s0 where se: "sentry True s = (ok, s0)" by (cases "sentry True s")
  note sp = sentry_props[OF se]
  show "buf s1 = buf s" using assms se sp(1)
    by (cases ok) (auto simp: peek_def split: option.splits)
  show "avail s1 \<le> avail s" using assms se sp(2)
    by (cases ok) (auto simp: peek_def avail_def split: option.splits if_splits)
  show "pos s1 = pos s" using assms se
    by (cases ok) (auto simp: peek_def sentry_def split: option.splits if_splits)
  show "\<not> failbit s1 \<Longrightarrow> \<not> failbit s" using assms se
    by (cases ok) (auto simp: peek_def sentry_def good_def split: option.splits if_splits)
  show "c \<noteq> None \<Longrightarrow> s1 = s \<and> good s \<and> sgetc s = c" using assms se
    by (cases ok) (auto simp: peek_def sentry_def good_def split: option.splits if_splits)
  show "\<not> failbit s1 \<Longrightarrow> c = None \<Longrightarrow> eofbit s1" using assms se
    by (cases ok) (auto simp: peek_def sentry_def good_def split: option.splits if_splits)
qed

lemma ignore1_props: "buf (ignore1 s) = buf s" "avail (ignore1 s) \<le> avail s"
proof -
  obtain ok s0 where se: "sentry True s = (ok, s0)" by (cases "sentry True s")
  note sp = sentry_props[OF se]
  show "buf (ignore1 s) = buf s" using se sp(1)
    by (cases ok) (auto simp: ignore1_def split: option.splits)
  show "avail (ignore1 s) \<le> avail s" using se sp(2)
    by (cases ok) (auto simp: ignore1_def avail_def split: option.splits if_splits)
qed

lemma ws_props: "buf (ws s) = buf s" "avail (ws s) \<le> avail s" "\<not> failbit (ws s) \<Longrightarrow> good s"
proof -
  obtain ok s0 where se: "sentry True s = (ok, s0)" by (cases "sentry True s")
  note sp = sentry_props[OF se]
  show "buf (ws s) = buf s" using se sp(1)
    by (cases ok) (auto simp: ws_def skip_space_def Let_def)
  show "avail (ws s) \<le> avail s" using se sp(2)
    by (cases ok) (auto simp: ws_def skip_space_def Let_def avail_def split: if_splits)
  show "\<not> failbit (ws s) \<Longrightarrow> good s" using se sp(3,4)
    by (cases ok) (auto simp: ws_def)
qed

lemma tellg_props:
  assumes "tellg s = (p, s1)"
  shows "buf s1 = buf s" and "avail s1 \<le> avail s" and "pos s1 = pos s"
    and "\<not> failbit s1 \<Longrightarrow> p = int (pos s) \<and> s1 = s"
  using assms by (auto simp: tellg_def sentry_def avail_def good_def split: if_splits)

lemma seekg_back:
  assumes "\<not> failbit s" and "p \<le> length (buf s)"
  shows "seekg (int p) s = s\<lparr>eofbit := False, pos := p\<rparr>"
  using assms by (simp add: seekg_def sentry_def good_def)

lemma peek_after_token:
  assumes "after_token s" and "peek s = (c, s1)"
  shows "c \<noteq> Some CHR ''(''"
proof
  assume c: "c = Some CHR ''(''"
  with peek_props(5)[OF assms(2)] have "good s" "sgetc s = Some CHR ''(''" by simp_all
  with assms(1) show False by (simp add: after_token_def isspace_def)
qed


lemma char0_Nil: "\<not> isdigit (char0 [])" "\<not> isalpha (char0 [])"
  by (simp_all add: char0_def isdigit_def isalpha_def)

lemma avail_less: "\<not> failbit s \<Longrightarrow> \<not> failbit s1 \<Longrightarrow> buf s1 = buf s \<Longrightarrow> pos s < pos s1 \<Longrightarrow>
    pos s1 \<le> length (buf s) \<Longrightarrow> avail s1 < avail s"
  by (simp add: avail_def)

lemma avail_failed: "failbit s1 \<Longrightarrow> \<not> failbit s \<Longrightarrow> avail s1 < avail s" "failbit s1 \<Longrightarrow> avail s1 \<le> avail s"
  by (simp_all add: avail_def)

text \<open>What \<open>parseExpr\<close> does to the stream, from its defining equation alone.\<close>

lemma parseExpr_progress_eq:
  assumes eq: "parseExpr s =
    (case read_string [] s of
       (token, s1) \<Rightarrow>
         if isdigit (char0 token) then (ASTLiteral token, s1)
         else if isalpha (char0 token) then
           (case peek s1 of
              (c, s2) \<Rightarrow>
                if c = Some CHR ''('' then parseCall token s2
                else
                  (case tellg s2 of
                     (oldpos, s3) \<Rightarrow>
                       (case read_string [] s3 of
                          (op', s4) \<Rightarrow>
                            if \<not> failbit s4 then
                              (if is_operator op' then
                                 (case read_string [] s4 of
                                    (rhs, s5) \<Rightarrow> (ASTBinary token op' rhs, s5))
                               else (ASTVar token, seekg oldpos s4))
                            else (ASTVar token, s4))))
         else (ASTLiteral token, s1))"
  shows "buf (snd (parseExpr s)) = buf s \<and> avail (snd (parseExpr s)) \<le> avail s \<and>
         (\<not> failbit s \<longrightarrow> avail (snd (parseExpr s)) < avail s)"
proof -
  obtain token s1 where r1: "read_string [] s = (token, s1)" by (cases "read_string [] s")
  note p1 = read_string_cases[OF r1]
  show ?thesis
  proof (cases "failbit s1")
    case True
    then have "token = []" using p1(3) by simp
    then have "parseExpr s = (ASTLiteral token, s1)" using eq r1 by (simp add: char0_Nil)
    then show ?thesis using True p1(1) by (simp add: avail_failed)
  next
    case False
    note ok = p1(4)[OF False]
    have lt: "avail s1 < avail s" using ok False p1(1) by (intro avail_less) simp_all
    show ?thesis
    proof (cases "\<not> isdigit (char0 token) \<and> isalpha (char0 token)")
      case False
      then have "snd (parseExpr s) = s1" using eq r1 by auto
      then show ?thesis using lt p1(1) by simp
    next
      case True
      obtain c s2 where r2: "peek s1 = (c, s2)" by (cases "peek s1")
      note p2 = peek_props[OF r2]
      have at: "after_token s1" using ok by simp
      have c: "c \<noteq> Some CHR ''(''" using at r2 by (rule peek_after_token)
      obtain oldpos s3 where r3: "tellg s2 = (oldpos, s3)" by (cases "tellg s2")
      note p3 = tellg_props[OF r3]
      obtain op' s4 where r4: "read_string [] s3 = (op', s4)" by (cases "read_string [] s3")
      note p4 = read_string_cases[OF r4]
      have b4: "buf s4 = buf s" using p4(1) p3(1) p2(1) p1(1) by simp
      have m4: "avail s4 \<le> avail s1" using p4(2) p3(2) p2(2) by linarith
      show ?thesis
      proof (cases "failbit s4")
        case True
        then have "snd (parseExpr s) = s4" using eq r1 r2 r3 r4 \<open>\<not> isdigit (char0 token) \<and> isalpha (char0 token)\<close> c
          by simp
        then show ?thesis using b4 m4 lt by simp
      next
        case nf4: False
        show ?thesis
        proof (cases "is_operator op'")
          case True
          obtain rhs s5 where r5: "read_string [] s4 = (rhs, s5)" by (cases "read_string [] s4")
          note p5 = read_string_cases[OF r5]
          have "snd (parseExpr s) = s5"
            using eq r1 r2 r3 r4 r5 \<open>\<not> isdigit (char0 token) \<and> isalpha (char0 token)\<close> c nf4 True
            by simp
          then show ?thesis using p5(1,2) b4 m4 lt by simp
        next
          case False
          have nf3: "\<not> failbit s3" using p4(4)[OF nf4] by simp
          then have o: "oldpos = int (pos s1)" using p3(4) p2(3) by simp
          have le: "pos s1 \<le> length (buf s4)" using ok b4 by simp
          have sk: "seekg oldpos s4 = s4\<lparr>eofbit := False, pos := pos s1\<rparr>"
            unfolding o using nf4 le by (rule seekg_back)
          have "snd (parseExpr s) = seekg oldpos s4"
            using eq r1 r2 r3 r4 \<open>\<not> isdigit (char0 token) \<and> isalpha (char0 token)\<close> c nf4 False
            by simp
          moreover have "avail (seekg oldpos s4) = avail s1"
            using sk nf4 \<open>\<not> failbit s1\<close> b4 p1(1) by (simp add: avail_def)
          moreover have "buf (seekg oldpos s4) = buf s" using sk b4 by simp
          ultimately show ?thesis using lt by simp
        qed
      qed
    qed
  qed
qed

lemma parseExpr_progress_dom:
  assumes "parseExpr_parseCall_parseArgs_dom (Inl s)"
  shows "buf (snd (parseExpr s)) = buf s \<and> avail (snd (parseExpr s)) \<le> avail s \<and>
         (\<not> failbit s \<longrightarrow> avail (snd (parseExpr s)) < avail s)"
  by (rule parseExpr_progress_eq) (rule parseExpr.psimps[OF assms])


lemma no_paren_after_token:
  assumes "read_string [] s = (token, s1)" and "isalpha (char0 token)" and "peek s1 = (c, s2)"
  shows "c \<noteq> Some CHR ''(''"
proof -
  have "token \<noteq> []" using assms(2) char0_Nil(2) by auto
  then have "\<not> failbit s1" using read_string_cases(3)[OF assms(1)] by auto
  then have "after_token s1" using read_string_cases(4)[OF assms(1)] by simp
  then show ?thesis using assms(3) by (rule peek_after_token)
qed

termination parseExpr
proof (relation "measures
    [\<lambda>x. case x of Inl s \<Rightarrow> avail s | Inr (Inl (nm, s)) \<Rightarrow> avail s | Inr (Inr s) \<Rightarrow> avail s,
     \<lambda>x. case x of Inl s \<Rightarrow> 0 | Inr (Inl (nm, s)) \<Rightarrow> 2 | Inr (Inr s) \<Rightarrow> (1::nat)]", goal_cases)
  case 1
  show ?case by simp
next
  case (2 s x y xa ya)
  then show ?case using no_paren_after_token[of s x y "Some CHR ''(''" ya] by simp
next
  case (3 funcName s x y)
  then show ?case using read_char_props(2)[of "CHR 0x00" s x y] by auto
next
  case (4 s x y xa)
  then show ?case using peek_props(2)[of s x y] ws_props(2)[of y] by auto
next
  case (5 s x y xa xb ya xc yb)
  have g: "good y" using 5 ws_props(3) by blast
  then have nf: "\<not> failbit y" by (simp add: good_def)
  then have nfs: "\<not> failbit s" using peek_props(4)[of s x y] 5 by simp
  have m1: "avail y \<le> avail s" using peek_props(2)[of s x y] 5 by simp
  have m2: "avail (ws y) \<le> avail y" by (rule ws_props(2))
  have "avail (snd (parseExpr (ws y))) < avail (ws y)"
    using parseExpr_progress_dom[of "ws y"] 5 by simp
  moreover have "snd (parseExpr (ws y)) = ya" using 5 by (metis snd_conv)
  ultimately have m3: "avail ya < avail (ws y)" by simp
  have m4: "avail yb \<le> avail ya" using peek_props(2)[of ya xc yb] 5 by simp
  have m5: "avail (ignore1 yb) \<le> avail yb" by (rule ignore1_props(2))
  show ?case using m1 m2 m3 m4 m5 by auto
qed


declare parseExpr.simps [simp del] parseCall.simps [simp del] parseArgs.simps [simp del]

lemma parseExpr_progress:
  "buf (snd (parseExpr s)) = buf s \<and> avail (snd (parseExpr s)) \<le> avail s \<and>
   (\<not> failbit s \<longrightarrow> avail (snd (parseExpr s)) < avail s)"
  by (rule parseExpr_progress_eq) (rule parseExpr.simps)

lemma parseArgs_mono: "avail (snd (parseArgs s)) \<le> avail s"
proof (induction "avail s" arbitrary: s rule: less_induct)
  case less
  obtain c s1 where r1: "peek s = (c, s1)" by (cases "peek s")
  note p1 = peek_props[OF r1]
  show ?case
  proof (cases "c \<noteq> Some CHR '')'' \<and> \<not> failbit (ws s1)")
    case False
    then have "parseArgs s = (if c = Some CHR '')'' then ([], s1) else ([], ws s1))"
      using r1 by (subst parseArgs.simps) (auto simp: Let_def)
    then show ?thesis using p1(2) ws_props(2)[of s1] by auto
  next
    case True
    obtain e s3 where r3: "parseExpr (ws s1) = (e, s3)" by (cases "parseExpr (ws s1)")
    obtain c' s4 where r4: "peek s3 = (c', s4)" by (cases "peek s3")
    let ?s5 = "if c' = Some CHR '','' then ignore1 s4 else s4"
    obtain es s6 where r6: "parseArgs ?s5 = (es, s6)" by (cases "parseArgs ?s5")
    have eq: "snd (parseArgs s) = s6"
      using True r1 r3 r4 r6 by (subst parseArgs.simps) (simp add: Let_def)
    have "avail s3 < avail (ws s1)" using parseExpr_progress[of "ws s1"] True r3 by simp
    moreover have "avail (ws s1) \<le> avail s" using ws_props(2)[of s1] p1(2) by linarith
    moreover have "avail ?s5 \<le> avail s3" using peek_props(2)[OF r4] ignore1_props(2)[of s4] by auto
    ultimately have lt: "avail ?s5 < avail s" by linarith
    from less[OF lt] r6 have "avail s6 \<le> avail ?s5" by simp
    then show ?thesis using eq lt by simp
  qed
qed

lemma parseCall_mono: "avail (snd (parseCall nm s)) \<le> avail s"
proof -
  obtain ch s1 where r1: "read_char (CHR 0x00) s = (ch, s1)" by (cases "read_char (CHR 0x00) s")
  obtain as s2 where r2: "parseArgs s1 = (as, s2)" by (cases "parseArgs s1")
  have "snd (parseCall nm s) = ignore1 s2" using r1 r2 by (simp add: parseCall.simps)
  moreover have "avail (ignore1 s2) \<le> avail s2" by (rule ignore1_props(2))
  moreover have "avail s2 \<le> avail s1" using parseArgs_mono[of s1] r2 by simp
  moreover have "avail s1 \<le> avail s" using read_char_props(2)[OF r1] .
  ultimately show ?thesis by simp
qed

text \<open>The parameter loop of \<open>parseFunction\<close>. \<open>param\<close> is the variable of that name,
  which a failed \<open>in >> param\<close> leaves as it was; \<open>param.back()\<close> of an empty string is
  undefined behaviour.\<close>

function parseParams :: "string \<Rightarrow> istream \<Rightarrow> error + string list \<times> istream" where
  "parseParams param s =
    (case peek s of
       (c, s1) \<Rightarrow>
         if c \<noteq> Some CHR '')'' then
           (let s2 = ws s1
            in if \<not> failbit s2 then
                 (case read_string param s2 of
                    (param', s3) \<Rightarrow>
                      if param' = [] then Inl UndefinedBehaviour
                      else
                        (let p = (if last param' = CHR '','' then butlast param' else param')
                         in case parseParams p s3 of
                              Inl e \<Rightarrow> Inl e
                            | Inr (ps, s4) \<Rightarrow> Inr (p # ps, s4)))
               else Inr ([], s2))
         else Inr ([], s1))"
  by pat_completeness auto

termination
proof (relation "measure (\<lambda>(param, s). avail s)", goal_cases)
  case 1
  show ?case by simp
next
  case (2 param s x y xa xb ya xc)
  have g: "good y" using 2 ws_props(3) by blast
  have m1: "avail y \<le> avail s" using peek_props(2)[of s x y] 2 by simp
  have nf: "\<not> failbit (ws y)" using 2 by simp
  have r: "read_string param (ws y) = (xb, ya)" using 2 by simp
  have "avail ya < avail (ws y)"
  proof (cases "failbit ya")
    case True
    then show ?thesis using nf by (rule avail_failed)
  next
    case False
    from read_string_cases(1,4)[OF r] False show ?thesis
      by (intro avail_less) (use nf in simp_all)
  qed
  then show ?case using m1 ws_props(2)[of y] 2 by simp
qed

declare parseParams.simps [simp del]


text \<open>The statements of the \<open>val\<close> branch, the same in \<open>parseFunction\<close> and \<open>parse\<close>.\<close>

definition parseValDecl :: "istream \<Rightarrow> ASTExpr \<times> istream" where
  "parseValDecl s =
    (case read_string [] s of
       (name', s1) \<Rightarrow>
         (case read_string [] (ignore1 s1) of
            (type', s3) \<Rightarrow>
              (case parseExpr (ignore1 s3) of
                 (init, s5) \<Rightarrow> (ASTValDecl name' type' init, s5))))"

text \<open>The statements of the \<open>call\<close> branch.\<close>

definition parseCallStmt :: "istream \<Rightarrow> ASTExpr \<times> istream" where
  "parseCallStmt s = (case read_string [] s of (fname', s1) \<Rightarrow> parseCall fname' s1)"

lemma parseValDecl_mono: "avail (snd (parseValDecl s)) \<le> avail s"
proof -
  obtain n s1 where r1: "read_string [] s = (n, s1)" by (cases "read_string [] s")
  obtain t s3 where r3: "read_string [] (ignore1 s1) = (t, s3)" by (cases "read_string [] (ignore1 s1)")
  obtain i s5 where r5: "parseExpr (ignore1 s3) = (i, s5)" by (cases "parseExpr (ignore1 s3)")
  have "snd (parseValDecl s) = s5" using r1 r3 r5 by (simp add: parseValDecl_def)
  moreover have "avail s5 \<le> avail (ignore1 s3)" using parseExpr_progress[of "ignore1 s3"] r5 by simp
  moreover have "avail (ignore1 s3) \<le> avail s3" by (rule ignore1_props(2))
  moreover have "avail s3 \<le> avail (ignore1 s1)" using read_string_cases(2)[OF r3] .
  moreover have "avail (ignore1 s1) \<le> avail s1" by (rule ignore1_props(2))
  moreover have "avail s1 \<le> avail s" using read_string_cases(2)[OF r1] .
  ultimately show ?thesis by simp
qed

lemma parseCallStmt_mono: "avail (snd (parseCallStmt s)) \<le> avail s"
proof -
  obtain n s1 where r1: "read_string [] s = (n, s1)" by (cases "read_string [] s")
  have "snd (parseCallStmt s) = snd (parseCall n s1)" using r1 by (simp add: parseCallStmt_def)
  then show ?thesis using parseCall_mono[of n s1] read_string_cases(2)[OF r1] by simp
qed

lemma read_token_progress:
  assumes "read_string str s = (tok, s1)" and "\<not> failbit s1"
  shows "avail s1 < avail s"
  using read_string_cases(1,4)[OF assms(1)] assms(2) by (intro avail_less) simp_all

text \<open>The body loop of \<open>parseFunction\<close>.\<close>

function parseBody :: "istream \<Rightarrow> ASTExpr list \<times> istream" where
  "parseBody s =
    (case read_string [] s of
       (token, s1) \<Rightarrow>
         if \<not> failbit s1 \<and> token \<noteq> ''}'' then
           (if token = ''val'' then
              (case parseValDecl s1 of
                 (decl, s2) \<Rightarrow> (case parseBody s2 of (body, s3) \<Rightarrow> (decl # body, s3)))
            else if token = ''call'' then
              (case parseCallStmt s1 of
                 (call', s2) \<Rightarrow> (case parseBody s2 of (body, s3) \<Rightarrow> (call' # body, s3)))
            else parseBody s1)
         else ([], s1))"
  by pat_completeness auto

termination
proof (relation "measure avail", goal_cases)
  case 1
  show ?case by simp
next
  case (2 s x y xa ya)
  then have "avail y < avail s" using read_token_progress[of "[]" s x y] by simp
  moreover have "avail ya \<le> avail y" using parseValDecl_mono[of y] 2 by (metis snd_conv)
  ultimately show ?case by simp
next
  case (3 s x y xa ya)
  then have "avail y < avail s" using read_token_progress[of "[]" s x y] by simp
  moreover have "avail ya \<le> avail y" using parseCallStmt_mono[of y] 3 by (metis snd_conv)
  ultimately show ?case by simp
next
  case (4 s x y)
  then show ?case using read_token_progress[of "[]" s x y] by simp
qed

declare parseBody.simps [simp del]

lemma parseParams_mono: "parseParams param s = Inr (ps, s') \<Longrightarrow> avail s' \<le> avail s"
proof (induction param s arbitrary: ps s' rule: parseParams.induct)
  case (1 param s)
  obtain c s1 where r1: "peek s = (c, s1)" by (cases "peek s")
  note p1 = peek_props[OF r1]
  show ?case
  proof (cases "c \<noteq> Some CHR '')'' \<and> \<not> failbit (ws s1)")
    case False
    then have "s' = s1 \<or> s' = ws s1"
      using r1 "1.prems" by (subst (asm) parseParams.simps) (auto simp: Let_def split: if_splits)
    then show ?thesis using p1(2) ws_props(2)[of s1] by auto
  next
    case True
    obtain param' s3 where r3: "read_string param (ws s1) = (param', s3)"
      by (cases "read_string param (ws s1)")
    let ?p = "if last param' = CHR '','' then butlast param' else param'"
    from "1.prems" True r1 r3 obtain qs where ne: "param' \<noteq> []"
      and rec: "parseParams ?p s3 = Inr (qs, s')"
      by (subst (asm) parseParams.simps) (auto simp: Let_def split: if_splits sum.splits)
    have "avail s' \<le> avail s3"
      using "1.IH"[OF r1[symmetric] _ refl _ r3[symmetric] ne refl rec] True by simp
    moreover have "avail s3 \<le> avail (ws s1)" using read_string_cases(2)[OF r3] .
    ultimately show ?thesis using ws_props(2)[of s1] p1(2) by linarith
  qed
qed


lemma parseBody_mono: "avail (snd (parseBody s)) \<le> avail s"
proof (induction s rule: parseBody.induct)
  case (1 s)
  obtain token s1 where r1: "read_string [] s = (token, s1)" by (cases "read_string [] s")
  have m1: "avail s1 \<le> avail s" using read_string_cases(2)[OF r1] .
  show ?case
  proof (cases "\<not> failbit s1 \<and> token \<noteq> ''}''")
    case False
    then have "snd (parseBody s) = s1" using r1 by (subst parseBody.simps) auto
    then show ?thesis using m1 by simp
  next
    case True
    consider (val) "token = ''val''" | (call) "token \<noteq> ''val''" "token = ''call''"
      | (other) "token \<noteq> ''val''" "token \<noteq> ''call''" by blast
    then show ?thesis
    proof cases
      case val
      obtain d s2 where r2: "parseValDecl s1 = (d, s2)" by (cases "parseValDecl s1")
      have "snd (parseBody s) = snd (parseBody s2)"
        using r1 r2 True val by (subst parseBody.simps) (simp split: prod.splits)
      moreover have "avail (snd (parseBody s2)) \<le> avail s2"
        using "1.IH"(1)[OF r1[symmetric] True val r2[symmetric]] .
      moreover have "avail s2 \<le> avail s1" using parseValDecl_mono[of s1] r2 by simp
      ultimately show ?thesis using m1 by simp
    next
      case call
      obtain d s2 where r2: "parseCallStmt s1 = (d, s2)" by (cases "parseCallStmt s1")
      have "snd (parseBody s) = snd (parseBody s2)"
        using r1 r2 True call by (subst parseBody.simps) (simp split: prod.splits)
      moreover have "avail (snd (parseBody s2)) \<le> avail s2"
        using "1.IH"(2)[OF r1[symmetric] True call r2[symmetric]] .
      moreover have "avail s2 \<le> avail s1" using parseCallStmt_mono[of s1] r2 by simp
      ultimately show ?thesis using m1 by simp
    next
      case other
      have "snd (parseBody s) = snd (parseBody s1)"
        using r1 True other by (subst parseBody.simps) simp
      moreover have "avail (snd (parseBody s1)) \<le> avail s1"
        using "1.IH"(3)[OF r1[symmetric] True other] .
      ultimately show ?thesis using m1 by simp
    qed
  qed
qed

text \<open>\<open>parseFunction\<close>: the name, the token taken for \<open>(\<close>, the parameter loop,
  \<open>ignore(1)\<close> for \<open>)\<close>, the token taken for \<open>{\<close>, and the body loop.\<close>

definition parseFunction :: "istream \<Rightarrow> error + ASTExpr \<times> istream" where
  "parseFunction s =
    (case read_string [] s of
       (name', s1) \<Rightarrow>
         (case read_string [] s1 of
            (param, s2) \<Rightarrow>
              (case parseParams param s2 of
                 Inl e \<Rightarrow> Inl e
               | Inr (params', s3) \<Rightarrow>
                   (case read_string [] (ignore1 s3) of
                      (brace, s5) \<Rightarrow>
                        (case parseBody s5 of
                           (body, s6) \<Rightarrow> Inr (ASTFunction name' params' body, s6))))))"

lemma parseFunction_mono:
  assumes "parseFunction s = Inr (f, s')"
  shows "avail s' \<le> avail s"
proof -
  obtain n s1 where r1: "read_string [] s = (n, s1)" by (cases "read_string [] s")
  obtain p s2 where r2: "read_string [] s1 = (p, s2)" by (cases "read_string [] s1")
  from assms r1 r2 obtain ps s3 where r3: "parseParams p s2 = Inr (ps, s3)"
    by (auto simp: parseFunction_def split: sum.splits)
  obtain b s5 where r5: "read_string [] (ignore1 s3) = (b, s5)" by (cases "read_string [] (ignore1 s3)")
  have "s' = snd (parseBody s5)" using assms r1 r2 r3 r5
    by (auto simp: parseFunction_def split: prod.splits)
  then have "avail s' \<le> avail s5" using parseBody_mono[of s5] by simp
  moreover have "avail s5 \<le> avail (ignore1 s3)" using read_string_cases(2)[OF r5] .
  moreover have "avail (ignore1 s3) \<le> avail s3" by (rule ignore1_props(2))
  moreover have "avail s3 \<le> avail s2" using parseParams_mono[OF r3] .
  moreover have "avail s2 \<le> avail s1" using read_string_cases(2)[OF r2] .
  moreover have "avail s1 \<le> avail s" using read_string_cases(2)[OF r1] .
  ultimately show ?thesis by linarith
qed

text \<open>\<open>func->name\<close>\<close>

definition function_name :: "ASTExpr \<Rightarrow> string" where
  "function_name f = (case f of ASTFunction n ps body \<Rightarrow> n | _ \<Rightarrow> [])"

text \<open>The loop of \<open>parse\<close>, with the program built so far.\<close>

function parseLoop :: "ASTProgram \<Rightarrow> istream \<Rightarrow> error + ASTProgram" where
  "parseLoop program s =
    (case read_string [] s of
       (token, s1) \<Rightarrow>
         if \<not> failbit s1 then
           (if token = ''val'' then
              (case parseValDecl s1 of
                 (decl, s2) \<Rightarrow>
                   parseLoop (program\<lparr>statements := statements program @ [decl]\<rparr>) s2)
            else if token = ''func'' then
              (case parseFunction s1 of
                 Inl e \<Rightarrow> Inl e
               | Inr (func, s2) \<Rightarrow>
                   parseLoop (program\<lparr>functions' := (functions' program)(function_name func \<mapsto> func),
                                       statements := statements program @ [func]\<rparr>) s2)
            else if token = ''call'' then
              (case parseCallStmt s1 of
                 (call', s2) \<Rightarrow>
                   parseLoop (program\<lparr>statements := statements program @ [call']\<rparr>) s2)
            else parseLoop program s1)
         else Inr program)"
  by pat_completeness auto

termination
proof (relation "measure (\<lambda>(program, s). avail s)", goal_cases)
  case 1
  show ?case by simp
next
  case (2 program s x y xa ya)
  then have "avail y < avail s" using read_token_progress[of "[]" s x y] by simp
  moreover have "avail ya \<le> avail y" using parseValDecl_mono[of y] 2 by (metis snd_conv)
  ultimately show ?case by simp
next
  case (3 program s x y x2 xa ya)
  then have "avail y < avail s" using read_token_progress[of "[]" s x y] by simp
  moreover have "avail ya \<le> avail y" using parseFunction_mono[of y xa ya] 3 by simp
  ultimately show ?case by simp
next
  case (4 program s x y xa ya)
  then have "avail y < avail s" using read_token_progress[of "[]" s x y] by simp
  moreover have "avail ya \<le> avail y" using parseCallStmt_mono[of y] 4 by (metis snd_conv)
  ultimately show ?case by simp
next
  case (5 program s x y)
  then show ?case using read_token_progress[of "[]" s x y] by simp
qed

declare parseLoop.simps [simp del]

text \<open>\<open>parse\<close>: a fresh \<open>std::istringstream in(src)\<close> and an empty program.\<close>

definition parse :: "string \<Rightarrow> error + ASTProgram" where
  "parse src = parseLoop \<lparr>statements = [], functions' = Map.empty\<rparr>
                 \<lparr>buf = src, pos = 0, eofbit = False, failbit = False\<rparr>"


subsection \<open>The parser of the code-generator revision\<close>

text \<open>
  \<open>parseExpr\<close> of this revision reads up to three tokens: a literal when the second or
  the third extraction fails, a binary expression otherwise. \<open>parse\<close> knows \<open>val\<close> and
  \<open>loop\<close>; its result is the statement list of the program.
\<close>

definition parseExpr_cg :: "istream \<Rightarrow> ASTExpr_cg \<times> istream" where
  "parseExpr_cg s =
    (case read_string [] s of
       (lhs, s1) \<Rightarrow>
         (case read_string [] s1 of
            (op', s2) \<Rightarrow>
              if failbit s2 then (ASTLiteral_cg lhs, s2)
              else
                (case read_string [] s2 of
                   (rhs, s3) \<Rightarrow>
                     if failbit s3 then (ASTLiteral_cg lhs, s3)
                     else (ASTBinary_cg lhs op' rhs, s3))))"

text \<open>The statements of the \<open>val\<close> branch, at top level and in a loop body.\<close>

definition parseValDecl_cg :: "istream \<Rightarrow> ASTExpr_cg \<times> istream" where
  "parseValDecl_cg s =
    (case read_string [] s of
       (name', s1) \<Rightarrow>
         (case read_string [] (ignore1 s1) of
            (type', s3) \<Rightarrow>
              (case parseExpr_cg (ignore1 s3) of
                 (init, s5) \<Rightarrow> (ASTValDecl_cg name' type' init, s5))))"

lemma parseExpr_cg_mono: "avail (snd (parseExpr_cg s)) \<le> avail s"
proof -
  obtain l s1 where r1: "read_string [] s = (l, s1)" by (cases "read_string [] s")
  obtain o' s2 where r2: "read_string [] s1 = (o', s2)" by (cases "read_string [] s1")
  obtain r s3 where r3: "read_string [] s2 = (r, s3)" by (cases "read_string [] s2")
  have "snd (parseExpr_cg s) = s2 \<or> snd (parseExpr_cg s) = s3"
    using r1 r2 r3 by (simp add: parseExpr_cg_def)
  moreover have "avail s3 \<le> avail s2" using read_string_cases(2)[OF r3] .
  moreover have "avail s2 \<le> avail s1" using read_string_cases(2)[OF r2] .
  moreover have "avail s1 \<le> avail s" using read_string_cases(2)[OF r1] .
  ultimately show ?thesis by auto
qed

lemma parseValDecl_cg_mono: "avail (snd (parseValDecl_cg s)) \<le> avail s"
proof -
  obtain n s1 where r1: "read_string [] s = (n, s1)" by (cases "read_string [] s")
  obtain t s3 where r3: "read_string [] (ignore1 s1) = (t, s3)" by (cases "read_string [] (ignore1 s1)")
  obtain i s5 where r5: "parseExpr_cg (ignore1 s3) = (i, s5)" by (cases "parseExpr_cg (ignore1 s3)")
  have "snd (parseValDecl_cg s) = s5" using r1 r3 r5 by (simp add: parseValDecl_cg_def)
  moreover have "avail s5 \<le> avail (ignore1 s3)" using parseExpr_cg_mono[of "ignore1 s3"] r5 by simp
  moreover have "avail (ignore1 s3) \<le> avail s3" by (rule ignore1_props(2))
  moreover have "avail s3 \<le> avail (ignore1 s1)" using read_string_cases(2)[OF r3] .
  moreover have "avail (ignore1 s1) \<le> avail s1" by (rule ignore1_props(2))
  moreover have "avail s1 \<le> avail s" using read_string_cases(2)[OF r1] .
  ultimately show ?thesis by simp
qed

text \<open>The inner loop of the \<open>loop\<close> branch of \<open>parse\<close>.\<close>

function parseLoopBody_cg :: "istream \<Rightarrow> ASTExpr_cg list \<times> istream" where
  "parseLoopBody_cg s =
    (case read_string [] s of
       (token, s1) \<Rightarrow>
         if \<not> failbit s1 \<and> token \<noteq> ''}'' then
           (if token = ''val'' then
              (case parseValDecl_cg s1 of
                 (decl, s2) \<Rightarrow>
                   (case parseLoopBody_cg s2 of (body, s3) \<Rightarrow> (decl # body, s3)))
            else parseLoopBody_cg s1)
         else ([], s1))"
  by pat_completeness auto

termination
proof (relation "measure avail", goal_cases)
  case 1
  show ?case by simp
next
  case (2 s x y xa ya)
  then have "avail y < avail s" using read_token_progress[of "[]" s x y] by simp
  moreover have "avail ya \<le> avail y" using parseValDecl_cg_mono[of y] 2 by (metis snd_conv)
  ultimately show ?case by simp
next
  case (3 s x y)
  then show ?case using read_token_progress[of "[]" s x y] by simp
qed

declare parseLoopBody_cg.simps [simp del]

lemma parseLoopBody_cg_mono: "avail (snd (parseLoopBody_cg s)) \<le> avail s"
proof (induction s rule: parseLoopBody_cg.induct)
  case (1 s)
  obtain token s1 where r1: "read_string [] s = (token, s1)" by (cases "read_string [] s")
  have m1: "avail s1 \<le> avail s" using read_string_cases(2)[OF r1] .
  show ?case
  proof (cases "\<not> failbit s1 \<and> token \<noteq> ''}''")
    case False
    then have "snd (parseLoopBody_cg s) = s1" using r1 by (subst parseLoopBody_cg.simps) auto
    then show ?thesis using m1 by simp
  next
    case True
    show ?thesis
    proof (cases "token = ''val''")
      case val: True
      obtain d s2 where r2: "parseValDecl_cg s1 = (d, s2)" by (cases "parseValDecl_cg s1")
      have "snd (parseLoopBody_cg s) = snd (parseLoopBody_cg s2)"
        using r1 r2 True val by (subst parseLoopBody_cg.simps) (simp split: prod.splits)
      moreover have "avail (snd (parseLoopBody_cg s2)) \<le> avail s2"
        using "1.IH"(1)[OF r1[symmetric] True val r2[symmetric]] .
      moreover have "avail s2 \<le> avail s1" using parseValDecl_cg_mono[of s1] r2 by simp
      ultimately show ?thesis using m1 by simp
    next
      case other: False
      have "snd (parseLoopBody_cg s) = snd (parseLoopBody_cg s1)"
        using r1 True other by (subst parseLoopBody_cg.simps) simp
      moreover have "avail (snd (parseLoopBody_cg s1)) \<le> avail s1"
        using "1.IH"(2)[OF r1[symmetric] True other] .
      ultimately show ?thesis using m1 by simp
    qed
  qed
qed

text \<open>The statements of the \<open>loop\<close> branch of \<open>parse\<close>.\<close>

definition parseLoopStmt_cg :: "istream \<Rightarrow> ASTExpr_cg \<times> istream" where
  "parseLoopStmt_cg s =
    (case parseExpr_cg s of
       (start, s1) \<Rightarrow>
         (case read_string [] s1 of
            (to, s2) \<Rightarrow>
              (case parseExpr_cg s2 of
                 (end', s3) \<Rightarrow>
                   (case read_string [] s3 of
                      (brace, s4) \<Rightarrow>
                        (case parseLoopBody_cg s4 of
                           (body, s5) \<Rightarrow> (ASTLoop_cg start end' body, s5))))))"

lemma parseLoopStmt_cg_mono: "avail (snd (parseLoopStmt_cg s)) \<le> avail s"
proof -
  obtain a s1 where r1: "parseExpr_cg s = (a, s1)" by (cases "parseExpr_cg s")
  obtain t s2 where r2: "read_string [] s1 = (t, s2)" by (cases "read_string [] s1")
  obtain e s3 where r3: "parseExpr_cg s2 = (e, s3)" by (cases "parseExpr_cg s2")
  obtain b s4 where r4: "read_string [] s3 = (b, s4)" by (cases "read_string [] s3")
  obtain bd s5 where r5: "parseLoopBody_cg s4 = (bd, s5)" by (cases "parseLoopBody_cg s4")
  have "snd (parseLoopStmt_cg s) = s5" using r1 r2 r3 r4 r5 by (simp add: parseLoopStmt_cg_def)
  moreover have "avail s5 \<le> avail s4" using parseLoopBody_cg_mono[of s4] r5 by simp
  moreover have "avail s4 \<le> avail s3" using read_string_cases(2)[OF r4] .
  moreover have "avail s3 \<le> avail s2" using parseExpr_cg_mono[of s2] r3 by simp
  moreover have "avail s2 \<le> avail s1" using read_string_cases(2)[OF r2] .
  moreover have "avail s1 \<le> avail s" using parseExpr_cg_mono[of s] r1 by simp
  ultimately show ?thesis by simp
qed

text \<open>The loop of \<open>parse\<close>, with the statements built so far.\<close>

function parseLoop_cg :: "ASTExpr_cg list \<Rightarrow> istream \<Rightarrow> ASTExpr_cg list" where
  "parseLoop_cg stmts s =
    (case read_string [] s of
       (token, s1) \<Rightarrow>
         if \<not> failbit s1 then
           (if token = ''val'' then
              (case parseValDecl_cg s1 of (decl, s2) \<Rightarrow> parseLoop_cg (stmts @ [decl]) s2)
            else if token = ''loop'' then
              (case parseLoopStmt_cg s1 of (loop, s2) \<Rightarrow> parseLoop_cg (stmts @ [loop]) s2)
            else parseLoop_cg stmts s1)
         else stmts)"
  by pat_completeness auto

termination
proof (relation "measure (\<lambda>(stmts, s). avail s)", goal_cases)
  case 1
  show ?case by simp
next
  case (2 stmts s x y xa ya)
  then have "avail y < avail s" using read_token_progress[of "[]" s x y] by simp
  moreover have "avail ya \<le> avail y" using parseValDecl_cg_mono[of y] 2 by (metis snd_conv)
  ultimately show ?case by simp
next
  case (3 stmts s x y xa ya)
  then have "avail y < avail s" using read_token_progress[of "[]" s x y] by simp
  moreover have "avail ya \<le> avail y" using parseLoopStmt_cg_mono[of y] 3 by (metis snd_conv)
  ultimately show ?case by simp
next
  case (4 stmts s x y)
  then show ?case using read_token_progress[of "[]" s x y] by simp
qed

declare parseLoop_cg.simps [simp del]

definition parse_cg :: "string \<Rightarrow> ASTExpr_cg list" where
  "parse_cg src = parseLoop_cg [] \<lparr>buf = src, pos = 0, eofbit = False, failbit = False\<rparr>"

lemmas stream_eval = read_string_def read_char_def peek_def ignore1_def ws_def tellg_def seekg_def
  sentry_def good_def sgetc_def skip_space_def isspace_def char0_def isdigit_def isalpha_def
  is_operator_def Let_def

lemmas parse_eval = parse_def parseLoop.simps parseValDecl_def parseCallStmt_def parseFunction_def
  parseExpr.simps parseCall.simps parseArgs.simps parseParams.simps parseBody.simps function_name_def

lemmas parse_cg_eval = parse_cg_def parseLoop_cg.simps parseLoopStmt_cg_def parseLoopBody_cg.simps
  parseValDecl_cg_def parseExpr_cg_def

lemma parse_func_ub: "parse ''func f ( , '' = Inl UndefinedBehaviour"
  by (simp add: parse_eval stream_eval)

lemma parseParams_error: "parseParams param s = Inl e \<Longrightarrow> e = UndefinedBehaviour"
proof (induction param s rule: parseParams.induct)
  case (1 param s)
  obtain c s1 where r1: "peek s = (c, s1)" by (cases "peek s")
  show ?case
  proof (cases "c \<noteq> Some CHR '')'' \<and> \<not> failbit (ws s1)")
    case False
    then show ?thesis
      using r1 "1.prems" by (subst (asm) parseParams.simps) (auto simp: Let_def split: if_splits)
  next
    case True
    obtain param' s3 where r3: "read_string param (ws s1) = (param', s3)"
      by (cases "read_string param (ws s1)")
    let ?p = "if last param' = CHR '','' then butlast param' else param'"
    show ?thesis
    proof (cases "param' = []")
      case True
      with \<open>c \<noteq> Some CHR '')'' \<and> \<not> failbit (ws s1)\<close> r1 r3 "1.prems" show ?thesis
        by (subst (asm) parseParams.simps) (auto simp: Let_def)
    next
      case False
      with \<open>c \<noteq> Some CHR '')'' \<and> \<not> failbit (ws s1)\<close> r1 r3 "1.prems"
      have rec: "parseParams ?p s3 = Inl e"
        by (subst (asm) parseParams.simps) (auto simp: Let_def split: if_splits sum.splits)
      show ?thesis
        using "1.IH"[OF r1[symmetric] _ refl _ r3[symmetric] False refl rec]
          \<open>c \<noteq> Some CHR '')'' \<and> \<not> failbit (ws s1)\<close> by simp
    qed
  qed
qed

lemma parseFunction_error: "parseFunction s = Inl e \<Longrightarrow> e = UndefinedBehaviour"
  by (auto simp: parseFunction_def split: prod.splits sum.splits dest: parseParams_error)

lemma parseLoop_error: "parseLoop program s = Inl e \<Longrightarrow> e = UndefinedBehaviour"
proof (induction program s rule: parseLoop.induct)
  case (1 program s)
  obtain token s1 where r1: "read_string [] s = (token, s1)" by (cases "read_string [] s")
  show ?case
  proof (cases "failbit s1")
    case True
    then show ?thesis using r1 "1.prems" by (subst (asm) parseLoop.simps) simp
  next
    case nf: False
    consider (val) "token = ''val''" | (func) "token = ''func''" | (call) "token = ''call''"
      | (other) "token \<noteq> ''val''" "token \<noteq> ''func''" "token \<noteq> ''call''" by blast
    then show ?thesis
    proof cases
      case val
      obtain d s2 where r2: "parseValDecl s1 = (d, s2)" by (cases "parseValDecl s1")
      have "parseLoop (program\<lparr>statements := statements program @ [d]\<rparr>) s2 = Inl e"
        using "1.prems" r1 r2 nf val by (subst (asm) parseLoop.simps) simp
      then show ?thesis using "1.IH"(1)[OF r1[symmetric] _ val r2[symmetric]] nf by simp
    next
      case func
      show ?thesis
      proof (cases "parseFunction s1")
        case (Inl e')
        then have "e = e'" using "1.prems" r1 nf func by (subst (asm) parseLoop.simps) simp
        then show ?thesis using parseFunction_error[OF Inl] by simp
      next
        case (Inr r)
        obtain f s2 where r: "r = (f, s2)" by (cases r)
        have "parseLoop (program\<lparr>functions' := (functions' program)(function_name f \<mapsto> f),
                                  statements := statements program @ [f]\<rparr>) s2 = Inl e"
          using "1.prems" r1 nf func Inr r by (subst (asm) parseLoop.simps) simp
        then show ?thesis
          using "1.IH"(2)[OF r1[symmetric] _ _ func Inr[unfolded r] refl] nf func by simp
      qed
    next
      case call
      obtain d s2 where r2: "parseCallStmt s1 = (d, s2)" by (cases "parseCallStmt s1")
      have "parseLoop (program\<lparr>statements := statements program @ [d]\<rparr>) s2 = Inl e"
        using "1.prems" r1 r2 nf call by (subst (asm) parseLoop.simps) simp
      then show ?thesis using "1.IH"(3)[OF r1[symmetric] _ _ _ call r2[symmetric]] nf call by simp
    next
      case other
      have "parseLoop program s1 = Inl e"
        using "1.prems" r1 nf other by (subst (asm) parseLoop.simps) simp
      then show ?thesis using "1.IH"(4)[OF r1[symmetric] _ other] nf by simp
    qed
  qed
qed


section \<open>Notions and examples for the properties\<close>

subsection \<open>Auxiliary notions for the properties\<close>

text \<open>A \<open>call\<close> function keeps the stack when every call that returns leaves
  \<open>callStack\<close> as it found it.\<close>

definition keeps_stack :: "(string \<Rightarrow> int list \<Rightarrow> interp \<Rightarrow> (int \<times> interp) outcome) \<Rightarrow> bool" where
  "keeps_stack callf = (\<forall>nm as st r st'. callf nm as st = Returns (r, st') \<longrightarrow> callStack st' = callStack st)"

text \<open>The names declared by the \<open>ASTValDecl\<close> statements of a body, in order.\<close>

fun declNames :: "ASTExpr list \<Rightarrow> string list" where
  "declNames [] = []"
| "declNames (ASTValDecl nm ty init # ss) = nm # declNames ss"
| "declNames (_ # ss) = declNames ss"

text \<open>The \<open>Alloc\<close> instructions for a list of names given consecutive slots from \<open>k\<close>.\<close>

fun allocSeq :: "string list \<Rightarrow> int \<Rightarrow> IRInstr list" where
  "allocSeq [] k = []"
| "allocSeq (n # ns) k = instr Alloc [n, to_string k] # allocSeq ns (k + 1)"

text \<open>The \<open>Alloc\<close> instructions of an instruction list, in order.\<close>

definition allocsOf :: "IRInstr list \<Rightarrow> IRInstr list" where
  "allocsOf is = filter (\<lambda>i. op i = Alloc) is"

subsection \<open>Example programs\<close>

text \<open>
  The examples are syntax trees, given to \<open>lower\<close> directly; each is described by the
  program it stands for.
\<close>

text \<open>\<open>func f(x) { val y as int: 5 }  call f(7)\<close>\<close>

definition prog_f5 :: IRProgram where
  "prog_f5 = lower \<lparr>statements = [ASTFunction ''f'' [''x''] [ASTValDecl ''y'' ''int'' (ASTLiteral ''5'')],
                                  ASTCall ''f'' [ASTLiteral ''7'']], functions' = Map.empty\<rparr>"

text \<open>\<open>func f(x) { val y as int: x }  call f(7)\<close>\<close>

definition prog_fx :: IRProgram where
  "prog_fx = lower \<lparr>statements = [ASTFunction ''f'' [''x''] [ASTValDecl ''y'' ''int'' (ASTVar ''x'')],
                                  ASTCall ''f'' [ASTLiteral ''7'']], functions' = Map.empty\<rparr>"

text \<open>\<open>val a as int: 3  call g(a)\<close>, with no function \<open>g\<close>\<close>

definition prog_callg :: IRProgram where
  "prog_callg = lower \<lparr>statements = [ASTValDecl ''a'' ''int'' (ASTLiteral ''3''), ASTCall ''g'' [ASTVar ''a'']],
                        functions' = Map.empty\<rparr>"

text \<open>\<open>func g() { call say(a) }  val a as int: 3  call g()\<close>\<close>

definition prog_say :: IRProgram where
  "prog_say = lower \<lparr>statements = [ASTFunction ''g'' [] [ASTCall ''say'' [ASTVar ''a'']],
                                   ASTValDecl ''a'' ''int'' (ASTLiteral ''3''),
                                   ASTCall ''g'' []], functions' = Map.empty\<rparr>"

text \<open>\<open>func f(x, y) { val z as int: 1 }  val a as int: 3  val b as int: 4\<close>\<close>

definition fn_and_decls :: "ASTExpr list" where
  "fn_and_decls = [ASTFunction ''f'' [''x'', ''y''] [ASTValDecl ''z'' ''int'' (ASTLiteral ''1'')],
                   ASTValDecl ''a'' ''int'' (ASTLiteral ''3''), ASTValDecl ''b'' ''int'' (ASTLiteral ''4'')]"

text \<open>\<open>val a as int: 3  val a as int: 4\<close>\<close>

definition redecl :: "ASTExpr list" where
  "redecl = [ASTValDecl ''a'' ''int'' (ASTLiteral ''3''), ASTValDecl ''a'' ''int'' (ASTLiteral ''4'')]"

text \<open>\<open>func g() { val b as int: a }  val a as int: 3  call g()\<close>\<close>

definition prog_store_a :: IRProgram where
  "prog_store_a = lower \<lparr>statements = [ASTFunction ''g'' [] [ASTValDecl ''b'' ''int'' (ASTVar ''a'')],
                                       ASTValDecl ''a'' ''int'' (ASTLiteral ''3''),
                                       ASTCall ''g'' []], functions' = Map.empty\<rparr>"

text \<open>\<open>func g() { val b as int: a + a  call h(b, a) }  func h(p, q) { call say(p, q) }
  val a as int: 3  call g()\<close>\<close>

definition prog_add_a :: IRProgram where
  "prog_add_a = lower \<lparr>statements = [ASTFunction ''g'' [] [ASTValDecl ''b'' ''int'' (ASTBinary ''a'' ''+'' ''a''),
                                                           ASTCall ''h'' [ASTVar ''b'', ASTVar ''a'']],
                                     ASTFunction ''h'' [''p'', ''q''] [ASTCall ''say'' [ASTVar ''p'', ASTVar ''q'']],
                                     ASTValDecl ''a'' ''int'' (ASTLiteral ''3''),
                                     ASTCall ''g'' []], functions' = Map.empty\<rparr>"

text \<open>An interpreter inside a callee that has allocated \<open>b\<close>, called by a caller that
  binds \<open>a\<close> to 3.\<close>

definition st_in_callee :: interp where
  "st_in_callee = \<lparr>callStack = [\<lparr>vars = [''b'' \<mapsto> 0], retAddr = - 1\<rparr>,
                                 \<lparr>vars = [''a'' \<mapsto> 3], retAddr = - 1\<rparr>], cout = []\<rparr>"

text \<open>A new interpreter, and one inside a call of a caller that binds \<open>a\<close>.\<close>

definition empty_interp :: interp where
  "empty_interp = \<lparr>callStack = [], cout = []\<rparr>"

definition st0 :: interp where
  "st0 = \<lparr>callStack = [\<lparr>vars = [''a'' \<mapsto> 1], retAddr = - 1\<rparr>], cout = []\<rparr>"

section \<open>Properties\<close>

subsection \<open>Decimal text and \<open>stoi\<close>\<close>

lemma isdigit_digit_char: "d < 10 \<Longrightarrow> isdigit (digit_char d)"
  by (simp add: isdigit_def digit_char_def)

lemma digit_val_digit_char: "d < 10 \<Longrightarrow> digit_val (digit_char d) = d"
  by (simp add: digit_val_def digit_char_def)

lemma digits_all_digit: "list_all isdigit (digits n)"
proof (induction n rule: digits.induct)
  case (1 n)
  show ?case
    by (subst digits.simps) (use 1 in \<open>simp add: isdigit_digit_char\<close>)
qed

lemma digits_ne: "digits n \<noteq> []"
  by (subst digits.simps) auto

lemma digits_val_append: "digits_val (ds @ [c]) = 10 * digits_val ds + digit_val c"
  by (simp add: digits_val_def)

lemma digits_val_digits: "digits_val (digits n) = n"
proof (induction n rule: digits.induct)
  case (1 n)
  show ?case
  proof (cases "n < 10")
    case True
    then show ?thesis by (subst digits.simps) (simp add: digits_val_def digit_val_digit_char)
  next
    case False
    then show ?thesis
      by (subst digits.simps) (simp add: 1 digits_val_append digit_val_digit_char)
  qed
qed

lemma takeWhile_all: "list_all P xs \<Longrightarrow> takeWhile P xs = xs"
  by (induction xs) auto

lemma digits_hd: "\<exists>c cs. digits n = c # cs"
  using digits_ne[of n] by (cases "digits n") auto

lemma stoi_unsigned:
  assumes "list_all isdigit (c # cs)"
  shows "stoi (c # cs) =
    (if int (digits_val (c # cs)) \<le> INT_MAX then Inr (int (digits_val (c # cs))) else Inl OutOfRange)"
proof -
  have c: "isdigit c" using assms by simp
  then have n: "c \<noteq> CHR ''-''" "c \<noteq> CHR ''+''" "\<not> isspace c"
    by (auto simp: isdigit_def isspace_def)
  have tw: "takeWhile isdigit (c # cs) = c # cs"
    using assms by (rule takeWhile_all)
  have dw: "dropWhile isspace (c # cs) = c # cs" using n by simp
  have lo: "INT_MIN \<le> int (digits_val (c # cs))" by (simp add: INT_MIN_def)
  show ?thesis
    unfolding stoi_def dw using n lo by (simp add: tw del: takeWhile.simps)
qed

lemma stoi_minus:
  assumes "list_all isdigit (c # cs)"
  shows "stoi (CHR ''-'' # c # cs) =
    (if INT_MIN \<le> - int (digits_val (c # cs)) then Inr (- int (digits_val (c # cs))) else Inl OutOfRange)"
proof -
  have tw: "takeWhile isdigit (c # cs) = c # cs"
    using assms by (rule takeWhile_all)
  have dw: "dropWhile isspace (CHR ''-'' # c # cs) = CHR ''-'' # c # cs"
    by (simp add: isspace_def)
  have hi: "- int (digits_val (c # cs)) \<le> INT_MAX" by (simp add: INT_MAX_def)
  show ?thesis
    unfolding stoi_def dw using hi by (simp add: tw del: takeWhile.simps)
qed

text \<open>Reading back the decimal text of an \<open>int\<close> gives the \<open>int\<close>.\<close>

lemma stoi_to_string:
  assumes "INT_MIN \<le> n" "n \<le> INT_MAX"
  shows "stoi (to_string n) = Inr n"
proof (cases "n < 0")
  case True
  obtain c cs where d: "digits (nat (- n)) = c # cs" using digits_hd by blast
  have a: "list_all isdigit (c # cs)" using digits_all_digit[of "nat (- n)"] d by simp
  have v: "digits_val (c # cs) = nat (- n)" using digits_val_digits[of "nat (- n)"] d by simp
  have "to_string n = CHR ''-'' # c # cs" using True d by (simp add: to_string_def)
  then show ?thesis using stoi_minus[OF a] v True assms by simp
next
  case False
  obtain c cs where d: "digits (nat n) = c # cs" using digits_hd by blast
  have a: "list_all isdigit (c # cs)" using digits_all_digit[of "nat n"] d by simp
  have v: "digits_val (c # cs) = nat n" using digits_val_digits[of "nat n"] d by simp
  have "to_string n = c # cs" using False d by (simp add: to_string_def)
  then show ?thesis using stoi_unsigned[OF a] v False assms by simp
qed

lemmas stoi_eval = stoi_def isspace_def isdigit_def digits_val_def digit_val_def INT_MIN_def INT_MAX_def

subsection \<open>Lowering a literal declaration and running it\<close>

lemma lowerMain_single:
  "lowerMain [ASTValDecl x ty (ASTLiteral v)] =
     \<lparr>fname = ''_main'', params = [], blocks = [\<lparr>name = ''entry'',
         instrs = [instr Alloc [x, to_string 0], instr Store [x, v]]\<rparr>],
       varOffsets = [x \<mapsto> 0], stackSize = 1\<rparr>"
  by (simp add: lowerMain_def allocateVar_def)

text \<open>
  C1. For every \<open>int\<close> \<open>n\<close>, the program that consists of the declaration of \<open>x\<close> with
  declared type \<open>int\<close> and the decimal literal of \<open>n\<close> as initializer lowers to a
  \<open>_main\<close> whose execution, in the frame that \<open>call\<close> pushes for it, returns with \<open>x\<close>
  bound to \<open>n\<close> in that frame and the frames below untouched; \<open>execMain\<close> then
  returns normally.
\<close>

theorem lower_literal_roundtrip:
  assumes "INT_MIN \<le> n" and "n \<le> INT_MAX"
    and "prog = lower \<lparr>statements = [ASTValDecl x ''int'' (ASTLiteral (to_string n))], functions' = fs\<rparr>"
  shows "\<exists>fn st'.
     prog ''_main'' = Some fn \<and>
     execFunc (call k prog) fn (pushFrame \<lparr>vars = Map.empty, retAddr = - 1\<rparr> st) = Returns (0, st') \<and>
     (\<exists>f. callStack st' = f # callStack st \<and> vars f x = Some n) \<and>
     execMain (Suc k) prog st = Returns (0, st)"
  using stoi_to_string[OF assms(1,2)] assms(3)
  by (simp add: lower_def lowerMain_single execFunc_def step_def instr_def setVar_def
      pushFrame_def execMain_def)

theorem lower_literal_roundtrip_witness:
  "INT_MIN \<le> 42 \<and> 42 \<le> INT_MAX \<and>
   (\<exists>fn st'.
     lower \<lparr>statements = [ASTValDecl ''x'' ''int'' (ASTLiteral (to_string 42))], functions' = Map.empty\<rparr>
        ''_main'' = Some fn \<and>
     execFunc (call 0 (lower \<lparr>statements = [ASTValDecl ''x'' ''int'' (ASTLiteral (to_string 42))],
                               functions' = Map.empty\<rparr>)) fn
        (pushFrame \<lparr>vars = Map.empty, retAddr = - 1\<rparr> \<lparr>callStack = [], cout = []\<rparr>) = Returns (0, st') \<and>
     (\<exists>f. callStack st' = [f] \<and> vars f ''x'' = Some 42))"
proof -
  have lo: "INT_MIN \<le> 42" and hi: "42 \<le> INT_MAX" by (simp_all add: INT_MIN_def INT_MAX_def)
  from lower_literal_roundtrip[OF lo hi refl, of "''x''" Map.empty 0 "\<lparr>callStack = [], cout = []\<rparr>"]
  show ?thesis using lo hi by auto
qed

lemma to_string_small:
  "to_string 0 = ''0''" "to_string 1 = ''1''" "to_string 2 = ''2''" "to_string 3 = ''3''"
  by code_simp+

lemmas lower_eval = lower_def lowerMain_def lowerFunction_def allocateVar_def instr_def to_string_small
lemmas interp_eval = execMain_def execFunc_def step_def setVar_def pushFrame_def

subsection \<open>Stack discipline of \<open>call\<close>\<close>

lemma setVar_stack:
  "setVar nm v st = Returns st' \<Longrightarrow> callStack st = f # fs \<Longrightarrow> \<exists>f'. callStack st' = f' # fs"
  by (auto simp: setVar_def)

lemma step_stack:
  assumes "keeps_stack callf" and "callStack st = f # fs" and "step callf i st = Returns st'"
  shows "\<exists>f'. callStack st' = f' # fs"
proof (cases "op i")
  case Alloc
  then show ?thesis using assms(2,3)
    by (auto simp: step_def split: list.splits dest: setVar_stack)
next
  case Store
  then show ?thesis using assms(2,3)
    by (auto simp: step_def split: list.splits sum.splits dest: setVar_stack)
next
  case Add
  then show ?thesis using assms(2,3)
    by (auto simp: step_def split: list.splits sum.splits if_splits dest: setVar_stack)
next
  case Call
  then show ?thesis using assms
    by (auto simp: step_def keeps_stack_def split: list.splits sum.splits if_splits outcome.splits)
qed (use assms(2,3) in \<open>auto simp: step_def\<close>)

lemma execInstrs_stack:
  assumes "keeps_stack callf"
  shows "callStack st = f # fs \<Longrightarrow> execInstrs callf is st = Returns st' \<Longrightarrow> \<exists>f'. callStack st' = f' # fs"
proof (induction "is" arbitrary: st f)
  case Nil
  then show ?case by simp
next
  case (Cons i "is")
  from Cons.prems(2) obtain st1 where s: "step callf i st = Returns st1"
    and r: "execInstrs callf is st1 = Returns st'"
    by (auto split: outcome.splits)
  from step_stack[OF assms Cons.prems(1) s] obtain f1 where "callStack st1 = f1 # fs" by blast
  from Cons.IH[OF this r] show ?case .
qed

lemma execBlocks_stack:
  assumes "keeps_stack callf"
  shows "callStack st = f # fs \<Longrightarrow> execBlocks callf bs st = Returns st' \<Longrightarrow> \<exists>f'. callStack st' = f' # fs"
proof (induction bs arbitrary: st f)
  case Nil
  then show ?case by simp
next
  case (Cons b bs)
  from Cons.prems(2) obtain st1 where s: "execInstrs callf (instrs b) st = Returns st1"
    and r: "execBlocks callf bs st1 = Returns st'"
    by (auto split: outcome.splits)
  from execInstrs_stack[OF assms Cons.prems(1) s] obtain f1 where "callStack st1 = f1 # fs" by blast
  from Cons.IH[OF this r] show ?case .
qed

lemma execFunc_stack:
  assumes "keeps_stack callf" and "callStack st = f # fs" and "execFunc callf fn st = Returns (r, st')"
  shows "\<exists>f'. callStack st' = f' # fs"
  using assms(3) execBlocks_stack[OF assms(1,2)]
  by (auto simp: execFunc_def split: outcome.splits)

lemma call_keeps_stack: "keeps_stack (call k prog)"
proof (induction k)
  case 0
  show ?case by (simp add: keeps_stack_def)
next
  case (Suc k)
  show ?case unfolding keeps_stack_def
  proof (intro allI impI)
    fix nm as st r st'
    assume c: "call (Suc k) prog nm as st = Returns (r, st')"
    then obtain fn vs st1 where fn: "prog nm = Some fn"
      and e: "execFunc (call k prog) fn (pushFrame \<lparr>vars = vs, retAddr = - 1\<rparr> st) = Returns (r, st1)"
      and p: "st' = st1\<lparr>callStack := tl (callStack st1)\<rparr>" "callStack st1 \<noteq> []"
      by (auto split: option.splits sum.splits outcome.splits list.splits)
    have "callStack (pushFrame \<lparr>vars = vs, retAddr = - 1\<rparr> st) = \<lparr>vars = vs, retAddr = - 1\<rparr> # callStack st"
      by (simp add: pushFrame_def)
    from execFunc_stack[OF Suc this e] obtain f' where "callStack st1 = f' # callStack st" by blast
    then show "callStack st' = callStack st" using p by simp
  qed
qed

lemma bindParams_zip:
  "length ps \<le> length as \<Longrightarrow> bindParams ps as m = Inr (m ++ map_of (rev (zip ps as)))"
proof (induction ps as m rule: bindParams.induct)
  case (1 as m)
  then show ?case by simp
next
  case (2 p ps m)
  then show ?case by simp
next
  case (3 p ps a as m)
  from "3.prems" have le: "length ps \<le> length as" by simp
  have eq: "m(p \<mapsto> a) ++ map_of (rev (zip ps as)) = m ++ map_of (rev (zip (p # ps) (a # as)))"
    by (simp add: map_add_assoc[symmetric])
  have "bindParams (p # ps) (a # as) m = bindParams ps as (m(p \<mapsto> a))" by simp
  also have "\<dots> = Inr (m(p \<mapsto> a) ++ map_of (rev (zip ps as)))" by (rule "3.IH"[OF le])
  finally show ?case unfolding eq .
qed


lemma map_of_rev_zip_distinct:
  "distinct ps \<Longrightarrow> length ps \<le> length as \<Longrightarrow> i < length ps \<Longrightarrow>
     map_of (rev (zip ps as)) (ps ! i) = Some (as ! i)"
proof -
  assume d: "distinct ps" and l: "length ps \<le> length as" and i: "i < length ps"
  have dz: "distinct (map fst (rev (zip ps as)))"
    using d l by (simp add: rev_map[symmetric] map_fst_zip_take min_def)
  have "(ps ! i, as ! i) \<in> set (rev (zip ps as))"
    using i l by (auto simp: set_zip)
  with dz show ?thesis by (rule map_of_is_SomeI)
qed

text \<open>
  C7. Stack discipline of calls. A call that returns leaves \<open>callStack\<close> exactly as it
  was before the call: the frame pushed on entry is gone with all the bindings of the
  callee, and no frame of the callers has changed. A call with as many arguments as the
  function has parameters, or more, runs the body on top of the unchanged stack in a fresh
  frame that holds exactly the bindings of the parameters to the arguments, by position,
  and when the body returns the stack is the one before the call.
\<close>

theorem call_frame_discipline:
  "(call k prog nm as st = Returns (r, st') \<longrightarrow> callStack st' = callStack st) \<and>
   (prog nm = Some fn \<and> length (params fn) \<le> length as \<longrightarrow>
      call (Suc k) prog nm as st =
        (case execFunc (call k prog) fn
                (pushFrame \<lparr>vars = map_of (rev (zip (params fn) as)), retAddr = - 1\<rparr> st) of
           Returns (res, st1) \<Rightarrow> Returns (res, st1\<lparr>callStack := callStack st\<rparr>)
         | Throws e \<Rightarrow> Throws e
         | OutOfFuel \<Rightarrow> OutOfFuel)) \<and>
   (distinct (params fn) \<and> length (params fn) \<le> length as \<and> i < length (params fn) \<longrightarrow>
      map_of (rev (zip (params fn) as)) (params fn ! i) = Some (as ! i))"
proof (intro conjI impI)
  assume "call k prog nm as st = Returns (r, st')"
  then show "callStack st' = callStack st"
    using call_keeps_stack[of k prog] by (simp add: keeps_stack_def)
next
  assume a: "prog nm = Some fn \<and> length (params fn) \<le> length as"
  let ?f = "\<lparr>vars = map_of (rev (zip (params fn) as)), retAddr = - 1\<rparr>"
  have b: "bindParams (params fn) as Map.empty = Inr (map_of (rev (zip (params fn) as)))"
    using bindParams_zip[of "params fn" as Map.empty] a by simp
  have cs: "callStack (pushFrame ?f st) = ?f # callStack st" by (simp add: pushFrame_def)
  show "call (Suc k) prog nm as st =
        (case execFunc (call k prog) fn (pushFrame ?f st) of
           Returns (res, st1) \<Rightarrow> Returns (res, st1\<lparr>callStack := callStack st\<rparr>)
         | Throws e \<Rightarrow> Throws e
         | OutOfFuel \<Rightarrow> OutOfFuel)"
  proof (cases "execFunc (call k prog) fn (pushFrame ?f st)")
    case (Returns p)
    obtain res st1 where p: "p = (res, st1)" by (cases p)
    from execFunc_stack[OF call_keeps_stack cs Returns[unfolded p]]
    obtain f' where "callStack st1 = f' # callStack st" by blast
    then show ?thesis using a b Returns p by simp
  next
    case (Throws e)
    then show ?thesis using a b by simp
  next
    case OutOfFuel
    then show ?thesis using a b by simp
  qed
next
  assume "distinct (params fn) \<and> length (params fn) \<le> length as \<and> i < length (params fn)"
  then show "map_of (rev (zip (params fn) as)) (params fn ! i) = Some (as ! i)"
    by (simp add: map_of_rev_zip_distinct)
qed


lemma prog_f5_f: "prog_f5 ''f'' = Some \<lparr>fname = ''f'', params = [''x''],
    blocks = [\<lparr>name = ''f_entry'', instrs = [instr Alloc [''y'', ''1''], instr Store [''y'', ''5'']]\<rparr>],
    varOffsets = [''x'' \<mapsto> 0, ''y'' \<mapsto> 1], stackSize = 2\<rparr>"
  by (simp add: prog_f5_def lower_eval)

lemma prog_f5_main: "prog_f5 ''_main'' = Some \<lparr>fname = ''_main'', params = [],
    blocks = [\<lparr>name = ''entry'', instrs = [instr Call [''f'', ''7'']]\<rparr>],
    varOffsets = Map.empty, stackSize = 0\<rparr>"
  by (simp add: prog_f5_def lower_eval)

lemma call_f5: "call 1 prog_f5 ''f'' [7] st0 = Returns (0, st0)"
  by (simp add: prog_f5_f interp_eval instr_def stoi_eval st0_def)

lemma main_f5: "execMain 2 prog_f5 st0 = Returns (0, st0)"
  by (simp add: numeral_2_eq_2 prog_f5_f prog_f5_main interp_eval instr_def stoi_eval st0_def)

theorem call_frame_discipline_witness:
  "call 1 prog_f5 ''f'' [7] st0 = Returns (0, st0) \<and> callStack st0 = callStack st0 \<and>
   prog_f5 ''f'' = Some (lowerFunction ''f'' [''x''] [ASTValDecl ''y'' ''int'' (ASTLiteral ''5'')]) \<and>
   length (params (lowerFunction ''f'' [''x''] [ASTValDecl ''y'' ''int'' (ASTLiteral ''5'')])) \<le> length [7::int] \<and>
   execFunc (call 0 prog_f5) (lowerFunction ''f'' [''x''] [ASTValDecl ''y'' ''int'' (ASTLiteral ''5'')])
      (pushFrame \<lparr>vars = [''x'' \<mapsto> 7], retAddr = - 1\<rparr> st0) =
     Returns (0, st0\<lparr>callStack := \<lparr>vars = [''x'' \<mapsto> 7, ''y'' \<mapsto> 5], retAddr = - 1\<rparr> # callStack st0\<rparr>) \<and>
   distinct (params (lowerFunction ''f'' [''x''] [ASTValDecl ''y'' ''int'' (ASTLiteral ''5'')])) \<and>
   map_of (rev (zip [''x''] [7::int])) ([''x''] ! 0) = Some ([7] ! 0)"
  using call_frame_discipline[of 1 prog_f5 "''f''" "[7]" st0 0 st0
      "lowerFunction ''f'' [''x''] [ASTValDecl ''y'' ''int'' (ASTLiteral ''5'')]" 0]
  by (simp add: call_f5 prog_f5_f lower_eval interp_eval stoi_eval)


subsection \<open>Calls to unknown functions\<close>

lemma execInstrs_append:
  "execInstrs callf (xs @ ys) st =
    (case execInstrs callf xs st of
       Returns st1 \<Rightarrow> execInstrs callf ys st1
     | Throws e \<Rightarrow> Throws e
     | OutOfFuel \<Rightarrow> OutOfFuel)"
  by (induction xs arbitrary: st) (auto split: outcome.splits)

text \<open>
  C6. A call by a name that the program's function map does not hold throws
  \<open>std::runtime_error("No such function: " + name)\<close>, and the exception propagates:
  a function whose body reaches a \<open>Call\<close> instruction to a missing function throws the
  same error to its own caller.
\<close>

theorem call_undefined_function:
  "(prog nm = None \<longrightarrow>
      call (Suc k) prog nm vs st = Throws (RuntimeError (''No such function: '' @ nm))) \<and>
   (prog nm = None \<and> nm \<noteq> ''say'' \<and>
    prog caller = Some fn \<and> blocks fn = [\<lparr>name = b, instrs = pre @ instr Call (nm # as) # post\<rparr>] \<and>
    bindParams (params fn) cargs Map.empty = Inr m \<and>
    execInstrs (call (Suc k) prog) pre (pushFrame \<lparr>vars = m, retAddr = - 1\<rparr> st) = Returns st1 \<and>
    valuesOf as (callStack st1) = Inr vs \<longrightarrow>
      call (Suc (Suc k)) prog caller cargs st = Throws (RuntimeError (''No such function: '' @ nm)))"
proof (intro conjI impI)
  assume "prog nm = None"
  then show "call (Suc k) prog nm vs st = Throws (RuntimeError (''No such function: '' @ nm))"
    by simp
next
  assume a: "prog nm = None \<and> nm \<noteq> ''say'' \<and>
    prog caller = Some fn \<and> blocks fn = [\<lparr>name = b, instrs = pre @ instr Call (nm # as) # post\<rparr>] \<and>
    bindParams (params fn) cargs Map.empty = Inr m \<and>
    execInstrs (call (Suc k) prog) pre (pushFrame \<lparr>vars = m, retAddr = - 1\<rparr> st) = Returns st1 \<and>
    valuesOf as (callStack st1) = Inr vs"
  have s: "step (call (Suc k) prog) (instr Call (nm # as)) st1 =
      Throws (RuntimeError (''No such function: '' @ nm))"
    using a by (simp add: step_def instr_def)
  have "execInstrs (call (Suc k) prog) (pre @ instr Call (nm # as) # post)
          (pushFrame \<lparr>vars = m, retAddr = - 1\<rparr> st) =
        Throws (RuntimeError (''No such function: '' @ nm))"
    using a s by (simp add: execInstrs_append)
  then have "execFunc (call (Suc k) prog) fn (pushFrame \<lparr>vars = m, retAddr = - 1\<rparr> st) =
        Throws (RuntimeError (''No such function: '' @ nm))"
    using a by (simp add: execFunc_def)
  then show "call (Suc (Suc k)) prog caller cargs st = Throws (RuntimeError (''No such function: '' @ nm))"
    using a by simp
qed

lemma prog_callg_main: "prog_callg ''_main'' = Some \<lparr>fname = ''_main'', params = [],
    blocks = [\<lparr>name = ''entry'', instrs = [instr Alloc [''a'', ''0''], instr Store [''a'', ''3'']] @
                 instr Call (''g'' # [''a'']) # []\<rparr>],
    varOffsets = [''a'' \<mapsto> 0], stackSize = 1\<rparr>"
  by (simp add: prog_callg_def lower_eval)

lemma prog_callg_g: "prog_callg ''g'' = None"
  by (simp add: prog_callg_def lower_eval)

theorem call_undefined_function_witness:
  "prog_callg ''g'' = None \<and> ''g'' \<noteq> ''say'' \<and>
   call 1 prog_callg ''g'' [3] empty_interp = Throws (RuntimeError ''No such function: g'') \<and>
   execMain 2 prog_callg empty_interp = Throws (RuntimeError ''No such function: g'')"
proof -
  let ?fn = "\<lparr>fname = ''_main'', params = [], blocks = [\<lparr>name = ''entry'',
      instrs = [instr Alloc [''a'', ''0''], instr Store [''a'', ''3'']] @ instr Call (''g'' # [''a'']) # []\<rparr>],
      varOffsets = [''a'' \<mapsto> 0], stackSize = 1\<rparr>"
  let ?st1 = "\<lparr>callStack = [\<lparr>vars = [''a'' \<mapsto> 3], retAddr = - 1\<rparr>], cout = []\<rparr>"
  have pre: "execInstrs (call (Suc 0) prog_callg) [instr Alloc [''a'', ''0''], instr Store [''a'', ''3'']]
       (pushFrame \<lparr>vars = Map.empty, retAddr = - 1\<rparr> empty_interp) = Returns ?st1"
    by (simp add: interp_eval instr_def stoi_eval empty_interp_def)
  have vs: "valuesOf [''a''] (callStack ?st1) = Inr [3]" by simp
  from call_undefined_function[of prog_callg "''g''" 0 "[3]" empty_interp "''_main''" ?fn "''entry''"
      "[instr Alloc [''a'', ''0''], instr Store [''a'', ''3'']]" "[''a'']" "[]" "[]" Map.empty ?st1]
  show ?thesis
    using pre vs prog_callg_main prog_callg_g
    by (simp add: execMain_def numeral_2_eq_2)
qed


subsection \<open>Operand resolution\<close>

lemma valueOf_skip:
  "\<forall>f\<in>set inner. vars f nm = None \<Longrightarrow> valueOf nm (inner @ fs) = valueOf nm fs"
  by (induction inner) auto

text \<open>
  \<open>valueOf\<close> scans the frames from the most recently pushed to the oldest and
  returns the first binding; with no binding in any frame it is \<open>stoi\<close> of the name.
  So a callee whose own frame does not bind a name reads the binding of its caller
  wherever \<open>valueOf\<close> is used: \<open>say(nm)\<close> in the callee prints the caller's value.
\<close>

lemma valueOf_scans_frames:
  "((\<forall>f\<in>set inner. vars f nm = None) \<and> vars f nm = Some v \<longrightarrow>
       valueOf nm (inner @ f # outer) = Inr v) \<and>
   ((\<forall>f\<in>set fs. vars f nm = None) \<longrightarrow> valueOf nm fs = stoi nm) \<and>
   (vars callee nm = None \<and> vars caller nm = Some v \<and> callStack st = callee # caller # rest \<longrightarrow>
       valueOf nm (callStack st) = Inr v \<and>
       step callf (instr Call [''say'', nm]) st = Returns (st\<lparr>cout := cout st @ [v]\<rparr>))"
proof (intro conjI impI)
  assume "(\<forall>f\<in>set inner. vars f nm = None) \<and> vars f nm = Some v"
  then show "valueOf nm (inner @ f # outer) = Inr v"
    by (simp add: valueOf_skip)
next
  assume "\<forall>f\<in>set fs. vars f nm = None"
  then show "valueOf nm fs = stoi nm"
    using valueOf_skip[of fs nm "[]"] by simp
next
  assume a: "vars callee nm = None \<and> vars caller nm = Some v \<and> callStack st = callee # caller # rest"
  then show "valueOf nm (callStack st) = Inr v" by simp
  from a show "step callf (instr Call [''say'', nm]) st = Returns (st\<lparr>cout := cout st @ [v]\<rparr>)"
    by (simp add: step_def instr_def)
qed

lemma prog_say_g: "prog_say ''g'' = Some \<lparr>fname = ''g'', params = [],
    blocks = [\<lparr>name = ''g_entry'', instrs = [instr Call [''say'', ''a'']]\<rparr>],
    varOffsets = Map.empty, stackSize = 0\<rparr>"
  by (simp add: prog_say_def lower_eval)

lemma prog_say_main: "prog_say ''_main'' = Some \<lparr>fname = ''_main'', params = [],
    blocks = [\<lparr>name = ''entry'', instrs = [instr Alloc [''a'', ''0''], instr Store [''a'', ''3''],
                                             instr Call [''g'']]\<rparr>],
    varOffsets = [''a'' \<mapsto> 0], stackSize = 1\<rparr>"
  by (simp add: prog_say_def lower_eval)

lemma callee_prints_callers_variable:
  "execMain 2 prog_say empty_interp = Returns (0, empty_interp\<lparr>cout := [3]\<rparr>)"
  by (simp add: numeral_2_eq_2 prog_say_g prog_say_main interp_eval instr_def stoi_eval empty_interp_def)

lemma valueOf_scans_frames_example:
  "vars \<lparr>vars = Map.empty, retAddr = - 1\<rparr> ''a'' = None \<and>
   vars \<lparr>vars = [''a'' \<mapsto> 3], retAddr = - 1\<rparr> ''a'' = Some 3 \<and>
   valueOf ''a'' [\<lparr>vars = Map.empty, retAddr = - 1\<rparr>, \<lparr>vars = [''a'' \<mapsto> 3], retAddr = - 1\<rparr>] = Inr 3 \<and>
   valueOf ''12'' [\<lparr>vars = Map.empty, retAddr = - 1\<rparr>] = Inr 12 \<and>
   step (call 0 prog_say) (instr Call [''say'', ''a''])
     \<lparr>callStack = [\<lparr>vars = Map.empty, retAddr = - 1\<rparr>, \<lparr>vars = [''a'' \<mapsto> 3], retAddr = - 1\<rparr>], cout = []\<rparr>
     = Returns \<lparr>callStack = [\<lparr>vars = Map.empty, retAddr = - 1\<rparr>, \<lparr>vars = [''a'' \<mapsto> 3], retAddr = - 1\<rparr>],
                cout = [3]\<rparr>"
  using valueOf_scans_frames[of "[\<lparr>vars = Map.empty, retAddr = - 1\<rparr>]" "''a''"
      "\<lparr>vars = [''a'' \<mapsto> 3], retAddr = - 1\<rparr>" 3 "[]" "[\<lparr>vars = Map.empty, retAddr = - 1\<rparr>]"
      "\<lparr>vars = Map.empty, retAddr = - 1\<rparr>" "\<lparr>vars = [''a'' \<mapsto> 3], retAddr = - 1\<rparr>"
      "\<lparr>callStack = [\<lparr>vars = Map.empty, retAddr = - 1\<rparr>, \<lparr>vars = [''a'' \<mapsto> 3], retAddr = - 1\<rparr>], cout = []\<rparr>"
      "[]" "call 0 prog_say"]
  by (simp add: stoi_eval)

lemma prog_fx_f: "prog_fx ''f'' = Some \<lparr>fname = ''f'', params = [''x''],
    blocks = [\<lparr>name = ''f_entry'', instrs = [instr Alloc [''y'', ''1''], instr Store [''y'', ''x'']]\<rparr>],
    varOffsets = [''x'' \<mapsto> 0, ''y'' \<mapsto> 1], stackSize = 2\<rparr>"
  by (simp add: prog_fx_def lower_eval)

lemma prog_fx_main: "prog_fx ''_main'' = Some \<lparr>fname = ''_main'', params = [],
    blocks = [\<lparr>name = ''entry'', instrs = [instr Call [''f'', ''7'']]\<rparr>],
    varOffsets = Map.empty, stackSize = 0\<rparr>"
  by (simp add: prog_fx_def lower_eval)

text \<open>
  In the program \<open>func f(x) { val y as int: x }  call f(7)\<close> the frame of \<open>f\<close> binds
  \<open>x\<close> to 7 on entry, over the unchanged stack of the caller; the body then throws in
  its \<open>Store\<close> (see C2), so this call does not return.
\<close>

lemma call_fx_entry_and_outcome:
  "bindParams [''x''] [7] Map.empty = Inr [''x'' \<mapsto> 7] \<and>
   execInstrs (call 0 prog_fx) [instr Alloc [''y'', ''1'']] (pushFrame \<lparr>vars = [''x'' \<mapsto> 7], retAddr = - 1\<rparr> st0) =
     Returns (st0\<lparr>callStack := \<lparr>vars = [''x'' \<mapsto> 7, ''y'' \<mapsto> 0], retAddr = - 1\<rparr> # callStack st0\<rparr>) \<and>
   call 1 prog_fx ''f'' [7] st0 = Throws InvalidArgument"
  by (simp add: prog_fx_f interp_eval instr_def stoi_eval st0_def)

text \<open>
  C2. \<open>Store\<close> does not resolve its source operand: it applies \<open>stoi\<close> to the operand
  text, whatever the frames bind. On the frame of \<open>f\<close> called with 7, where \<open>valueOf\<close>
  resolves \<open>x\<close> to 7, the \<open>Store y x\<close> that \<open>lowerFunction\<close> emits for
  \<open>val y as int: x\<close> throws \<open>std::invalid_argument\<close>, and so does the whole program.
\<close>

theorem store_does_not_resolve_names:
  "valueOf ''x'' [\<lparr>vars = [''x'' \<mapsto> 7, ''y'' \<mapsto> 0], retAddr = - 1\<rparr>] = Inr 7 \<and>
   step callf (instr Store [''y'', ''x''])
      \<lparr>callStack = [\<lparr>vars = [''x'' \<mapsto> 7, ''y'' \<mapsto> 0], retAddr = - 1\<rparr>], cout = []\<rparr> = Throws InvalidArgument \<and>
   execMain 2 prog_fx empty_interp = Throws InvalidArgument"
  by (simp add: numeral_2_eq_2 prog_fx_f prog_fx_main interp_eval instr_def stoi_eval empty_interp_def)

text \<open>
  The opcodes that read operands. \<open>Add\<close> resolves both source operands by \<open>valueOf\<close>
  on the whole stack; \<open>Call\<close> resolves every argument by \<open>valueOf\<close> and passes the
  values; \<open>Store\<close> applies \<open>stoi\<close> to its source operand and never looks at a frame.
\<close>

lemma step_Add_resolves:
  assumes "callStack st = f # fs" and "valueOf a1 (callStack st) = Inr v1"
    and "valueOf a2 (callStack st) = Inr v2" and "INT_MIN \<le> v1 + v2" and "v1 + v2 \<le> INT_MAX"
  shows "step callf (instr Add [a0, a1, a2]) st =
           Returns (st\<lparr>callStack := f\<lparr>vars := (vars f)(a0 \<mapsto> v1 + v2)\<rparr> # fs\<rparr>)"
  using assms by (simp add: step_def instr_def setVar_def)

lemma step_Call_resolves:
  assumes "nm \<noteq> ''say''" and "valuesOf as (callStack st) = Inr vs"
  shows "step callf (instr Call (nm # as)) st =
           (case callf nm vs st of
              Returns (r, st') \<Rightarrow> Returns st'
            | Throws e \<Rightarrow> Throws e
            | OutOfFuel \<Rightarrow> OutOfFuel)"
  using assms by (simp add: step_def instr_def)

lemma valuesOf_each:
  "valuesOf as fs = Inr vs \<longleftrightarrow> list_all2 (\<lambda>a v. valueOf a fs = Inr v) as vs"
proof (induction as arbitrary: vs)
  case Nil
  then show ?case by auto
next
  case (Cons a as)
  show ?case
  proof (cases vs)
    case Nil
    then show ?thesis by (auto split: sum.splits)
  next
    case (Cons v vs')
    then show ?thesis using Cons.IH[of vs'] by (auto split: sum.splits)
  qed
qed

lemma step_Store_ignores_frames:
  assumes "callStack st = f # fs"
  shows "step callf (instr Store [a0, a1]) st =
           (case stoi a1 of
              Inl e \<Rightarrow> Throws e
            | Inr v \<Rightarrow> Returns (st\<lparr>callStack := f\<lparr>vars := (vars f)(a0 \<mapsto> v)\<rparr> # fs\<rparr>))"
  using assms by (simp add: step_def instr_def setVar_def split: sum.splits)

lemma prog_store_a_g: "prog_store_a ''g'' = Some \<lparr>fname = ''g'', params = [],
    blocks = [\<lparr>name = ''g_entry'', instrs = [instr Alloc [''b'', ''0''], instr Store [''b'', ''a'']]\<rparr>],
    varOffsets = [''b'' \<mapsto> 0], stackSize = 1\<rparr>"
  by (simp add: prog_store_a_def lower_eval)

lemma prog_store_a_main: "prog_store_a ''_main'' = Some \<lparr>fname = ''_main'', params = [],
    blocks = [\<lparr>name = ''entry'', instrs = [instr Alloc [''a'', ''0''], instr Store [''a'', ''3''],
                                             instr Call [''g'']]\<rparr>],
    varOffsets = [''a'' \<mapsto> 0], stackSize = 1\<rparr>"
  by (simp add: prog_store_a_def lower_eval)

lemma prog_add_a_g: "prog_add_a ''g'' = Some \<lparr>fname = ''g'', params = [],
    blocks = [\<lparr>name = ''g_entry'', instrs = [instr Alloc [''b'', ''0''], instr Add [''b'', ''a'', ''a''],
                                              instr Call [''h'', ''b'', ''a'']]\<rparr>],
    varOffsets = [''b'' \<mapsto> 0], stackSize = 1\<rparr>"
  by (simp add: prog_add_a_def lower_eval)

lemma prog_add_a_h: "prog_add_a ''h'' = Some \<lparr>fname = ''h'', params = [''p'', ''q''],
    blocks = [\<lparr>name = ''h_entry'', instrs = [instr Call [''say'', ''p'', ''q'']]\<rparr>],
    varOffsets = [''p'' \<mapsto> 0, ''q'' \<mapsto> 1], stackSize = 2\<rparr>"
  by (simp add: prog_add_a_def lower_eval)

lemma prog_add_a_main: "prog_add_a ''_main'' = Some \<lparr>fname = ''_main'', params = [],
    blocks = [\<lparr>name = ''entry'', instrs = [instr Alloc [''a'', ''0''], instr Store [''a'', ''3''],
                                             instr Call [''g'']]\<rparr>],
    varOffsets = [''a'' \<mapsto> 0], stackSize = 1\<rparr>"
  by (simp add: prog_add_a_def lower_eval)

text \<open>
  C10. In a callee whose frame does not bind \<open>a\<close>, called by a caller that binds \<open>a\<close>
  to 3, \<open>valueOf\<close> finds 3, \<open>Add b a a\<close> stores 6, \<open>say(a)\<close> prints 3 and a call
  \<open>h(b, a)\<close> passes the caller's 3. \<open>Store b a\<close> in the same state does not scan the
  frames: it throws \<open>std::invalid_argument\<close>, and so does the program whose function
  declares \<open>val b as int: a\<close>. This is the defect of C2, seen from the callee.
\<close>

theorem store_does_not_scan_caller_frames:
  "valueOf ''a'' (callStack st_in_callee) = Inr 3 \<and>
   step (call 0 prog_add_a) (instr Add [''b'', ''a'', ''a'']) st_in_callee =
     Returns (st_in_callee\<lparr>callStack := [\<lparr>vars = [''b'' \<mapsto> 6], retAddr = - 1\<rparr>,
                                          \<lparr>vars = [''a'' \<mapsto> 3], retAddr = - 1\<rparr>]\<rparr>) \<and>
   step (call 0 prog_add_a) (instr Call [''say'', ''a'']) st_in_callee =
     Returns (st_in_callee\<lparr>cout := [3]\<rparr>) \<and>
   step (call 1 prog_add_a) (instr Call [''h'', ''b'', ''a'']) st_in_callee =
     Returns (st_in_callee\<lparr>cout := [0, 3]\<rparr>) \<and>
   execMain 3 prog_add_a empty_interp = Returns (0, empty_interp\<lparr>cout := [6, 3]\<rparr>) \<and>
   step (call 0 prog_store_a) (instr Store [''b'', ''a'']) st_in_callee = Throws InvalidArgument \<and>
   execMain 2 prog_store_a empty_interp = Throws InvalidArgument"
  by (simp add: numeral_2_eq_2 numeral_3_eq_3 prog_add_a_g prog_add_a_h prog_add_a_main
      prog_store_a_g prog_store_a_main interp_eval instr_def stoi_eval empty_interp_def st_in_callee_def)


subsection \<open>Stack slots\<close>

lemma paramOffsets_append:
  "paramOffsets (xs @ ys) k m = paramOffsets ys (k + int (length xs)) (paramOffsets xs k m)"
  by (induction xs arbitrary: k m) (auto simp: add.assoc)

lemma paramOffsets_notin: "nm \<notin> set ns \<Longrightarrow> paramOffsets ns k m nm = m nm"
  by (induction ns arbitrary: k m) auto

lemma paramOffsets_distinct:
  "distinct ns \<Longrightarrow> i < length ns \<Longrightarrow> paramOffsets ns k m (ns ! i) = Some (k + int i)"
proof (induction ns arbitrary: k m i)
  case Nil
  then show ?case by simp
next
  case (Cons n ns)
  show ?case
  proof (cases i)
    case 0
    then show ?thesis using Cons.prems by (simp add: paramOffsets_notin)
  next
    case (Suc j)
    from Cons.prems Suc have d: "distinct ns" and j: "j < length ns" by simp_all
    have "paramOffsets ns (k + 1) (m(n \<mapsto> k)) (ns ! j) = Some (k + 1 + int j)"
      using d j by (rule Cons.IH)
    then show ?thesis unfolding Suc by (simp add: add.assoc)
  qed
qed

lemma paramOffsets_last:
  "i < length ns \<Longrightarrow> ns ! i \<notin> set (drop (Suc i) ns) \<Longrightarrow>
     paramOffsets ns k m (ns ! i) = Some (k + int i)"
proof (induction ns arbitrary: k m i)
  case Nil
  then show ?case by simp
next
  case (Cons n ns)
  show ?case
  proof (cases i)
    case 0
    then show ?thesis using Cons.prems by (simp add: paramOffsets_notin)
  next
    case (Suc j)
    from Cons.prems Suc have j: "j < length ns" and l: "ns ! j \<notin> set (drop (Suc j) ns)" by simp_all
    have "paramOffsets ns (k + 1) (m(n \<mapsto> k)) (ns ! j) = Some (k + 1 + int j)"
      using j l by (rule Cons.IH)
    then show ?thesis unfolding Suc by (simp add: add.assoc)
  qed
qed

lemma paramOffsets_absent: "x \<notin> set ns \<Longrightarrow> paramOffsets ns k Map.empty x = None"
  by (simp add: paramOffsets_notin)

lemma allocSeq_append:
  "allocSeq (xs @ ys) k = allocSeq xs k @ allocSeq ys (k + int (length xs))"
  by (induction xs arbitrary: k) (auto simp: add.assoc)

lemma lowerFunctionStmt_layout:
  assumes "lowerFunctionStmt (fn, e) s = (fn', e')"
  shows "varOffsets fn' = paramOffsets (declNames [s]) (stackSize fn) (varOffsets fn) \<and>
         stackSize fn' = stackSize fn + int (length (declNames [s])) \<and>
         allocsOf e' = allocsOf e @ allocSeq (declNames [s]) (stackSize fn)"
proof (cases s)
  case (ASTValDecl nm ty init)
  then show ?thesis using assms
    by (cases init) (auto simp: allocateVar_def allocsOf_def instr_def Let_def)
qed (use assms in \<open>auto simp: allocsOf_def instr_def\<close>)

lemma declNames_Cons: "declNames (s # ss) = declNames [s] @ declNames ss"
  by (cases s) auto

lemma foldl_lowerFunctionStmt_layout:
  "foldl lowerFunctionStmt (fn, e) body = (fn', e') \<Longrightarrow>
     varOffsets fn' = paramOffsets (declNames body) (stackSize fn) (varOffsets fn) \<and>
     stackSize fn' = stackSize fn + int (length (declNames body)) \<and>
     allocsOf e' = allocsOf e @ allocSeq (declNames body) (stackSize fn)"
proof (induction body arbitrary: fn e)
  case Nil
  then show ?case by simp
next
  case (Cons s ss)
  obtain fn1 e1 where s1: "lowerFunctionStmt (fn, e) s = (fn1, e1)" by (cases "lowerFunctionStmt (fn, e) s")
  from Cons.prems s1 have r: "foldl lowerFunctionStmt (fn1, e1) ss = (fn', e')" by simp
  note a = lowerFunctionStmt_layout[OF s1] and b = Cons.IH[OF r]
  show ?case
    apply (subst (1 2 3) declNames_Cons)
    using a b by (simp add: paramOffsets_append allocSeq_append)
qed


lemma lowerMainStmt_layout:
  assumes "lowerMainStmt (fn, e) s = (fn', e')"
  shows "varOffsets fn' = paramOffsets (declNames [s]) (stackSize fn) (varOffsets fn) \<and>
         stackSize fn' = stackSize fn + int (length (declNames [s])) \<and>
         allocsOf e' = allocsOf e @ allocSeq (declNames [s]) (stackSize fn)"
proof (cases s)
  case (ASTValDecl nm ty init)
  then show ?thesis using assms
    by (cases init) (auto simp: allocateVar_def allocsOf_def instr_def Let_def)
qed (use assms in \<open>auto simp: allocsOf_def instr_def\<close>)

lemma foldl_lowerMainStmt_layout:
  "foldl lowerMainStmt (fn, e) body = (fn', e') \<Longrightarrow>
     varOffsets fn' = paramOffsets (declNames body) (stackSize fn) (varOffsets fn) \<and>
     stackSize fn' = stackSize fn + int (length (declNames body)) \<and>
     allocsOf e' = allocsOf e @ allocSeq (declNames body) (stackSize fn)"
proof (induction body arbitrary: fn e)
  case Nil
  then show ?case by simp
next
  case (Cons s ss)
  obtain fn1 e1 where s1: "lowerMainStmt (fn, e) s = (fn1, e1)" by (cases "lowerMainStmt (fn, e) s")
  from Cons.prems s1 have r: "foldl lowerMainStmt (fn1, e1) ss = (fn', e')" by simp
  note a = lowerMainStmt_layout[OF s1] and b = Cons.IH[OF r]
  show ?case
    apply (subst (1 2 3) declNames_Cons)
    using a b by (simp add: paramOffsets_append allocSeq_append)
qed

lemma lowerFunction_layout:
  "varOffsets (lowerFunction nm ps body) = paramOffsets (ps @ declNames body) 0 Map.empty \<and>
   stackSize (lowerFunction nm ps body) = int (length (ps @ declNames body)) \<and>
   (\<exists>e. blocks (lowerFunction nm ps body) = [\<lparr>name = nm @ ''_entry'', instrs = e\<rparr>] \<and>
        allocsOf e = allocSeq (declNames body) (int (length ps)))"
proof -
  let ?fn0 = "\<lparr>fname = nm, params = ps, blocks = [],
               varOffsets = paramOffsets ps 0 Map.empty, stackSize = int (length ps)\<rparr>"
  obtain fn' e' where f: "foldl lowerFunctionStmt (?fn0, []) body = (fn', e')"
    by (cases "foldl lowerFunctionStmt (?fn0, []) body")
  from foldl_lowerFunctionStmt_layout[OF f] f show ?thesis
    by (simp add: lowerFunction_def paramOffsets_append allocsOf_def)
qed

lemma lowerMain_layout:
  "varOffsets (lowerMain stmts) = paramOffsets (declNames stmts) 0 Map.empty \<and>
   stackSize (lowerMain stmts) = int (length (declNames stmts)) \<and>
   (\<exists>e. blocks (lowerMain stmts) = [\<lparr>name = ''entry'', instrs = e\<rparr>] \<and>
        allocsOf e = allocSeq (declNames stmts) 0)"
proof -
  let ?fn0 = "\<lparr>fname = ''_main'', params = [], blocks = [], varOffsets = Map.empty, stackSize = 0\<rparr>"
  obtain fn' e' where f: "foldl lowerMainStmt (?fn0, []) stmts = (fn', e')"
    by (cases "foldl lowerMainStmt (?fn0, []) stmts")
  from foldl_lowerMainStmt_layout[OF f] f show ?thesis
    by (simp add: lowerMain_def allocsOf_def)
qed

lemma lowerFunctions_origin:
  "lowerFunctions stmts m f = Some fn \<Longrightarrow>
     m f = Some fn \<or> (\<exists>ps body. ASTFunction f ps body \<in> set stmts \<and> fn = lowerFunction f ps body)"
proof (induction stmts m rule: lowerFunctions.induct)
  case (1 irprog)
  then show ?case by simp
next
  case (2 nm ps body stmts irprog)
  from "2.prems" have "lowerFunctions stmts (irprog(nm \<mapsto> lowerFunction nm ps body)) f = Some fn"
    by simp
  from "2.IH"[OF this]
  have "(irprog(nm \<mapsto> lowerFunction nm ps body)) f = Some fn \<or>
        (\<exists>ps body. ASTFunction f ps body \<in> set stmts \<and> fn = lowerFunction f ps body)" .
  then show ?case
  proof
    assume a: "(irprog(nm \<mapsto> lowerFunction nm ps body)) f = Some fn"
    show ?thesis
    proof (cases "f = nm")
      case True
      with a have "fn = lowerFunction f ps body" by simp
      with True show ?thesis by auto
    next
      case False
      with a show ?thesis by simp
    qed
  next
    assume "\<exists>ps body. ASTFunction f ps body \<in> set stmts \<and> fn = lowerFunction f ps body"
    then show ?thesis by auto
  qed
qed auto

lemma lowerMain_redecl:
  "lowerMain redecl = \<lparr>fname = ''_main'', params = [],
      blocks = [\<lparr>name = ''entry'', instrs = [instr Alloc [''a'', ''0''], instr Store [''a'', ''3''],
                                               instr Alloc [''a'', ''1''], instr Store [''a'', ''4'']]\<rparr>],
      varOffsets = [''a'' \<mapsto> 1], stackSize = 2\<rparr>"
  by (simp add: redecl_def lower_eval)

lemma lowerFunction_f_xx:
  "lowerFunction ''f'' [''x''] [ASTValDecl ''x'' ''int'' (ASTLiteral ''1'')] =
     \<lparr>fname = ''f'', params = [''x''],
      blocks = [\<lparr>name = ''f_entry'', instrs = [instr Alloc [''x'', ''1''], instr Store [''x'', ''1'']]\<rparr>],
      varOffsets = [''x'' \<mapsto> 1], stackSize = 2\<rparr>"
  by (simp add: lower_eval)

text \<open>
  C8 as stated fails for a name that is declared twice: \<open>varOffsets\<close> is keyed by
  name, so the later declaration replaces the slot of the earlier one. In the \<open>_main\<close>
  of \<open>val a int 3 val a int 4\<close>, as parsed from that text, the first declared name
  has slot 1 and no name has slot 0; a local named like a parameter takes the
  parameter's name out of slot 0 in the same way.
\<close>

theorem redeclared_name_keeps_last_slot:
  "parse ''val a int 3 val a int 4'' = Inr \<lparr>statements = redecl, functions' = Map.empty\<rparr> \<and>
   declNames redecl = [''a'', ''a''] \<and>
   lower \<lparr>statements = redecl, functions' = Map.empty\<rparr> ''_main'' = Some (lowerMain redecl) \<and>
   varOffsets (lowerMain redecl) (declNames redecl ! 0) = Some 1 \<and>
   varOffsets (lowerMain redecl) (declNames redecl ! 0) \<noteq> Some 0 \<and>
   (\<forall>nm. varOffsets (lowerMain redecl) nm \<noteq> Some 0) \<and>
   stackSize (lowerMain redecl) = 2 \<and>
   varOffsets (lowerFunction ''f'' [''x''] [ASTValDecl ''x'' ''int'' (ASTLiteral ''1'')]) ''x'' = Some 1 \<and>
   (\<forall>nm. varOffsets (lowerFunction ''f'' [''x''] [ASTValDecl ''x'' ''int'' (ASTLiteral ''1'')]) nm \<noteq> Some 0)"
proof -
  have p: "parse ''val a int 3 val a int 4'' = Inr \<lparr>statements = redecl, functions' = Map.empty\<rparr>"
    by (simp add: parse_eval stream_eval redecl_def)
  have l: "lower \<lparr>statements = redecl, functions' = Map.empty\<rparr> ''_main'' = Some (lowerMain redecl)"
    by (simp add: lower_def)
  have d: "declNames redecl = [''a'', ''a'']" by (simp add: redecl_def)
  show ?thesis unfolding d using p l by (simp add: lowerMain_redecl lowerFunction_f_xx)
qed


text \<open>
  C8 amended. Number the names of a lowered function from 0: first the parameters in
  order, then the declared locals in declaration order. \<open>stackSize\<close> is the number of
  names. \<open>varOffsets\<close> maps a name to the number of its last occurrence, and binds no
  other name; so when the names are pairwise different it maps the \<open>i\<close>-th of them to
  \<open>i\<close>. The \<open>Alloc\<close> instructions of the single block, in order, name the locals with
  the slots that follow the parameters, whether or not a name repeats. The same holds
  for \<open>_main\<close>, which has no parameters, and every other function of the lowered
  program is \<open>lowerFunction\<close> of a function definition of the source.
\<close>

theorem variable_offsets_layout:
  "stackSize (lowerFunction nm ps body) = int (length (ps @ declNames body)) \<and>
   (\<forall>i<length (ps @ declNames body).
      (ps @ declNames body) ! i \<notin> set (drop (Suc i) (ps @ declNames body)) \<longrightarrow>
      varOffsets (lowerFunction nm ps body) ((ps @ declNames body) ! i) = Some (int i)) \<and>
   (x \<notin> set (ps @ declNames body) \<longrightarrow> varOffsets (lowerFunction nm ps body) x = None) \<and>
   (distinct (ps @ declNames body) \<longrightarrow>
      (\<forall>i<length (ps @ declNames body).
          varOffsets (lowerFunction nm ps body) ((ps @ declNames body) ! i) = Some (int i))) \<and>
   (\<exists>e. blocks (lowerFunction nm ps body) = [\<lparr>name = nm @ ''_entry'', instrs = e\<rparr>] \<and>
        allocsOf e = allocSeq (declNames body) (int (length ps))) \<and>
   stackSize (lowerMain stmts) = int (length (declNames stmts)) \<and>
   (\<forall>i<length (declNames stmts).
      declNames stmts ! i \<notin> set (drop (Suc i) (declNames stmts)) \<longrightarrow>
      varOffsets (lowerMain stmts) (declNames stmts ! i) = Some (int i)) \<and>
   (x \<notin> set (declNames stmts) \<longrightarrow> varOffsets (lowerMain stmts) x = None) \<and>
   (distinct (declNames stmts) \<longrightarrow>
      (\<forall>i<length (declNames stmts).
          varOffsets (lowerMain stmts) (declNames stmts ! i) = Some (int i))) \<and>
   (\<exists>e. blocks (lowerMain stmts) = [\<lparr>name = ''entry'', instrs = e\<rparr>] \<and>
        allocsOf e = allocSeq (declNames stmts) 0) \<and>
   lower \<lparr>statements = stmts, functions' = fs\<rparr> ''_main'' = Some (lowerMain stmts) \<and>
   (lower \<lparr>statements = stmts, functions' = fs\<rparr> f = Some fn \<and> f \<noteq> ''_main'' \<longrightarrow>
      (\<exists>ps' body'. ASTFunction f ps' body' \<in> set stmts \<and> fn = lowerFunction f ps' body'))"
proof -
  have o: "lower \<lparr>statements = stmts, functions' = fs\<rparr> f = Some fn \<and> f \<noteq> ''_main'' \<longrightarrow>
      (\<exists>ps' body'. ASTFunction f ps' body' \<in> set stmts \<and> fn = lowerFunction f ps' body')"
    using lowerFunctions_origin[of stmts Map.empty f fn] by (auto simp: lower_def)
  note F = lowerFunction_layout[of nm ps body] and G = lowerMain_layout[of stmts]
  have f1: "\<forall>i<length (ps @ declNames body).
      (ps @ declNames body) ! i \<notin> set (drop (Suc i) (ps @ declNames body)) \<longrightarrow>
      varOffsets (lowerFunction nm ps body) ((ps @ declNames body) ! i) = Some (int i)"
    using F paramOffsets_last[of _ "ps @ declNames body" 0 Map.empty] by simp
  have f2: "x \<notin> set (ps @ declNames body) \<longrightarrow> varOffsets (lowerFunction nm ps body) x = None"
    using F paramOffsets_notin[of x "ps @ declNames body" 0 Map.empty] by simp
  have f3: "distinct (ps @ declNames body) \<longrightarrow>
      (\<forall>i<length (ps @ declNames body).
          varOffsets (lowerFunction nm ps body) ((ps @ declNames body) ! i) = Some (int i))"
    using F paramOffsets_distinct[of "ps @ declNames body" _ 0 Map.empty] by simp
  have g1: "\<forall>i<length (declNames stmts).
      declNames stmts ! i \<notin> set (drop (Suc i) (declNames stmts)) \<longrightarrow>
      varOffsets (lowerMain stmts) (declNames stmts ! i) = Some (int i)"
    using G paramOffsets_last[of _ "declNames stmts" 0 Map.empty] by simp
  have g2: "x \<notin> set (declNames stmts) \<longrightarrow> varOffsets (lowerMain stmts) x = None"
    using G paramOffsets_notin[of x "declNames stmts" 0 Map.empty] by simp
  have g3: "distinct (declNames stmts) \<longrightarrow>
      (\<forall>i<length (declNames stmts).
          varOffsets (lowerMain stmts) (declNames stmts ! i) = Some (int i))"
    using G paramOffsets_distinct[of "declNames stmts" _ 0 Map.empty] by simp
  have m: "lower \<lparr>statements = stmts, functions' = fs\<rparr> ''_main'' = Some (lowerMain stmts)"
    by (simp add: lower_def)
  show ?thesis using F G f1 f2 f3 g1 g2 g3 m o by blast
qed

lemma lowerMain_fn_and_decls:
  "lowerMain fn_and_decls = \<lparr>fname = ''_main'', params = [],
      blocks = [\<lparr>name = ''entry'', instrs = [instr Alloc [''a'', ''0''], instr Store [''a'', ''3''],
                                               instr Alloc [''b'', ''1''], instr Store [''b'', ''4'']]\<rparr>],
      varOffsets = [''a'' \<mapsto> 0, ''b'' \<mapsto> 1], stackSize = 2\<rparr>"
  by (simp add: fn_and_decls_def lower_eval)

lemma lowerFunction_f_xyz:
  "lowerFunction ''f'' [''x'', ''y''] [ASTValDecl ''z'' ''int'' (ASTLiteral ''1'')] =
     \<lparr>fname = ''f'', params = [''x'', ''y''],
      blocks = [\<lparr>name = ''f_entry'', instrs = [instr Alloc [''z'', ''2''], instr Store [''z'', ''1'']]\<rparr>],
      varOffsets = [''x'' \<mapsto> 0, ''y'' \<mapsto> 1, ''z'' \<mapsto> 2], stackSize = 3\<rparr>"
  by (simp add: lower_eval)

theorem variable_offsets_layout_witness:
  "[''x'', ''y'', ''z''] ! 2 \<notin> set (drop (Suc 2) [''x'', ''y'', ''z'']) \<and>
   ''w'' \<notin> set ([''x'', ''y''] @ declNames [ASTValDecl ''z'' ''int'' (ASTLiteral ''1'')]) \<and>
   distinct ([''x'', ''y''] @ declNames [ASTValDecl ''z'' ''int'' (ASTLiteral ''1'')]) \<and>
   distinct (declNames fn_and_decls) \<and>
   declNames redecl ! 1 \<notin> set (drop (Suc 1) (declNames redecl)) \<and>
   lower \<lparr>statements = fn_and_decls, functions' = Map.empty\<rparr> ''f'' =
     Some (lowerFunction ''f'' [''x'', ''y''] [ASTValDecl ''z'' ''int'' (ASTLiteral ''1'')]) \<and>
   ''f'' \<noteq> ''_main'' \<and>
   varOffsets (lowerFunction ''f'' [''x'', ''y''] [ASTValDecl ''z'' ''int'' (ASTLiteral ''1'')]) ''x'' = Some 0 \<and>
   varOffsets (lowerFunction ''f'' [''x'', ''y''] [ASTValDecl ''z'' ''int'' (ASTLiteral ''1'')]) ''y'' = Some 1 \<and>
   varOffsets (lowerFunction ''f'' [''x'', ''y''] [ASTValDecl ''z'' ''int'' (ASTLiteral ''1'')]) ''z'' = Some 2 \<and>
   varOffsets (lowerFunction ''f'' [''x'', ''y''] [ASTValDecl ''z'' ''int'' (ASTLiteral ''1'')]) ''w'' = None \<and>
   stackSize (lowerFunction ''f'' [''x'', ''y''] [ASTValDecl ''z'' ''int'' (ASTLiteral ''1'')]) = 3 \<and>
   lower \<lparr>statements = fn_and_decls, functions' = Map.empty\<rparr> ''_main'' = Some (lowerMain fn_and_decls) \<and>
   varOffsets (lowerMain fn_and_decls) ''a'' = Some 0 \<and>
   varOffsets (lowerMain fn_and_decls) ''b'' = Some 1 \<and>
   stackSize (lowerMain fn_and_decls) = 2 \<and>
   blocks (lowerMain fn_and_decls) =
     [\<lparr>name = ''entry'', instrs = [instr Alloc [''a'', ''0''], instr Store [''a'', ''3''],
                                    instr Alloc [''b'', ''1''], instr Store [''b'', ''4'']]\<rparr>] \<and>
   varOffsets (lowerMain redecl) (declNames redecl ! 1) = Some 1 \<and>
   stackSize (lowerMain redecl) = 2"
  using variable_offsets_layout[of "''f''" "[''x'', ''y'']" "[ASTValDecl ''z'' ''int'' (ASTLiteral ''1'')]"
      "''w''" fn_and_decls Map.empty "''f''"
      "lowerFunction ''f'' [''x'', ''y''] [ASTValDecl ''z'' ''int'' (ASTLiteral ''1'')]"]
    variable_offsets_layout[of "''f''" "[''x'', ''y'']" "[ASTValDecl ''z'' ''int'' (ASTLiteral ''1'')]"
      "''w''" redecl Map.empty "''f''"
      "lowerFunction ''f'' [''x'', ''y''] [ASTValDecl ''z'' ''int'' (ASTLiteral ''1'')]"]
  by (simp add: lowerMain_fn_and_decls lowerFunction_f_xyz lowerMain_redecl)
     (simp add: fn_and_decls_def redecl_def lower_def lowerFunction_f_xyz)


subsection \<open>Parsing malformed text\<close>

text \<open>
  C5 as stated fails: the parsers have no error path. \<open>val\<close> with nothing after it
  parses to a declaration with empty name, empty type and an empty literal; in the
  interpreter revision \<open>loop\<close> is not a keyword and the text is skipped, and the
  spec's own \<open>val x as int: 5\<close> parses to a declaration of type \<open>as\<close>; in the
  code-generator revision a \<open>loop\<close> without \<open>to\<close> parses to a loop.
\<close>

theorem parse_accepts_malformed_text:
  "parse ''val'' = Inr \<lparr>statements = [ASTValDecl [] [] (ASTLiteral [])], functions' = Map.empty\<rparr> \<and>
   parse ''loop 0 5 {'' = Inr \<lparr>statements = [], functions' = Map.empty\<rparr> \<and>
   parse ''val x as int: 5'' = Inr \<lparr>statements = [ASTValDecl ''x'' ''as'' (ASTVar ''int:'')],
                                     functions' = Map.empty\<rparr> \<and>
   parse_cg ''val'' = [ASTValDecl_cg [] [] (ASTLiteral_cg [])] \<and>
   parse_cg ''loop 0'' = [ASTLoop_cg (ASTLiteral_cg ''0'') (ASTLiteral_cg []) []] \<and>
   parse_cg ''loop 0 5 { }'' = [ASTLoop_cg (ASTBinary_cg ''0'' ''5'' ''{'') (ASTLiteral_cg []) []]"
  by (simp add: parse_eval parse_cg_eval stream_eval)

text \<open>
  C5 amended. \<open>parse\<close> returns for every source text: either a program, or the
  text drives \<open>parseFunction\<close> into \<open>param.back()\<close> of an empty string, which is
  undefined behaviour. No other failure exists.
\<close>

theorem parse_never_reports_an_error:
  "(\<exists>program. parse src = Inr program) \<or> parse src = Inl UndefinedBehaviour"
proof (cases "parse src")
  case (Inl e)
  then show ?thesis using parseLoop_error[of _ _ e] by (simp add: parse_def)
next
  case (Inr p)
  then show ?thesis by simp
qed



subsection \<open>Binary initializers\<close>

text \<open>
  C3. The operator of a binary initializer does not select the opcode. \<open>lowerFunction\<close>
  emits \<open>Add\<close> with both operands for every operator \<open>o'\<close>, the \<open>_main\<close> loop of that
  revision emits no arithmetic instruction at all, and the code-generator revision maps
  \<open>+\<close> to \<open>Add\<close>, \<open>-\<close> to \<open>Sub\<close> and everything else, \<open>*\<close> and \<open>/\<close> included, to
  \<open>Add\<close>, after a \<open>Store\<close> of the left operand.
\<close>

theorem binary_initializer_lowering:
  "blocks (lowerFunction f ps [ASTValDecl z ty (ASTBinary l o' r)]) =
     [\<lparr>name = f @ ''_entry'',
       instrs = [instr Alloc [z, to_string (int (length ps))], instr Add [z, l, r]]\<rparr>] \<and>
   blocks (lowerMain [ASTValDecl z ty (ASTBinary l o' r)]) =
     [\<lparr>name = ''entry'', instrs = [instr Alloc [z, to_string 0]]\<rparr>] \<and>
   lower_cg [ASTValDecl_cg z ''int'' (ASTBinary_cg l ''*'' r)] =
     Inr \<lparr>fname_cg = ''_main'', blocks_cg = [\<lparr>name_cg = ''entry'',
            instrs_cg = [instr_cg Alloc_cg [z], instr_cg Store_cg [z, l], instr_cg Add_cg [z, r]]\<rparr>]\<rparr> \<and>
   lower_cg [ASTValDecl_cg z ''int'' (ASTBinary_cg l ''/'' r)] =
     Inr \<lparr>fname_cg = ''_main'', blocks_cg = [\<lparr>name_cg = ''entry'',
            instrs_cg = [instr_cg Alloc_cg [z], instr_cg Store_cg [z, l], instr_cg Add_cg [z, r]]\<rparr>]\<rparr>"
  by (simp add: lowerFunction_def lowerMain_def allocateVar_def lower_cg_def Let_def)

subsection \<open>Declared types\<close>

lemma lowerStmts_cg_append:
  "lowerStmts_cg (xs @ ys) acc =
    (case lowerStmts_cg xs acc of Inl e \<Rightarrow> Inl e | Inr acc' \<Rightarrow> lowerStmts_cg ys acc')"
  by (induction xs arbitrary: acc) (auto split: sum.splits)

lemma lower_cg_type_error:
  assumes "ty \<noteq> ''int''" and "lowerStmts_cg pre ([], []) = Inr acc"
  shows "lower_cg (pre @ ASTValDecl_cg nm ty init # post) =
           Inl (Exit ''Type error: Only 'int' is supported.'' 1)"
proof -
  obtain blks entry where "acc = (blks, entry)" by (cases acc)
  then show ?thesis using assms by (simp add: lower_cg_def lowerStmts_cg_append)
qed

text \<open>
  C4. Only the top-level declarations of the code-generator revision are checked
  (\<open>lower_cg_type_error\<close>). The interpreter revision lowers a declaration of type
  \<open>float\<close> like any other, in \<open>_main\<close> and in a function, and runs it; the
  code-generator revision lowers it without complaint inside a loop body.
\<close>

theorem non_int_declaration_lowering:
  "lower \<lparr>statements = [ASTValDecl ''x'' ''float'' (ASTLiteral ''3'')], functions' = Map.empty\<rparr> ''_main'' =
     Some \<lparr>fname = ''_main'', params = [],
            blocks = [\<lparr>name = ''entry'', instrs = [instr Alloc [''x'', ''0''], instr Store [''x'', ''3'']]\<rparr>],
            varOffsets = [''x'' \<mapsto> 0], stackSize = 1\<rparr> \<and>
   execMain 1 (lower \<lparr>statements = [ASTValDecl ''x'' ''float'' (ASTLiteral ''3'')], functions' = Map.empty\<rparr>)
      empty_interp = Returns (0, empty_interp) \<and>
   blocks (lowerFunction ''f'' [] [ASTValDecl ''x'' ''float'' (ASTLiteral ''3'')]) =
     [\<lparr>name = ''f_entry'', instrs = [instr Alloc [''x'', ''0''], instr Store [''x'', ''3'']]\<rparr>] \<and>
   lower_cg [ASTLoop_cg (ASTLiteral_cg ''0'') (ASTLiteral_cg ''5'')
               [ASTValDecl_cg ''x'' ''float'' (ASTLiteral_cg ''3'')]] =
     Inr \<lparr>fname_cg = ''_main'', blocks_cg =
       [\<lparr>name_cg = ''loop_cond'', instrs_cg = [instr_cg CondJump_cg [''i'', ''5'', ''loop_end''],
                                                instr_cg Jump_cg [''loop_body'']]\<rparr>,
        \<lparr>name_cg = ''loop_body'', instrs_cg = [instr_cg Alloc_cg [''x''], instr_cg Store_cg [''x'', ''3''],
                                                instr_cg Add_cg [''i'', ''1''], instr_cg Jump_cg [''loop_cond'']]\<rparr>,
        \<lparr>name_cg = ''loop_end'', instrs_cg = []\<rparr>,
        \<lparr>name_cg = ''entry'', instrs_cg = [instr_cg Alloc_cg [''i''], instr_cg Store_cg [''i'', ''0''],
                                            instr_cg Jump_cg [''loop_cond'']]\<rparr>]\<rparr> \<and>
   lower_cg [ASTValDecl_cg ''x'' ''float'' (ASTLiteral_cg ''3'')] =
     Inl (Exit ''Type error: Only 'int' is supported.'' 1)"
  by (simp add: lower_eval interp_eval stoi_eval empty_interp_def lower_cg_def literal_value_def)

subsection \<open>Loops\<close>

text \<open>
  C9. The loop from 0 to 5 lowers to a \<open>loop_cond\<close> block that holds
  \<open>CondJump i 5 loop_end\<close> and then \<open>Jump loop_body\<close>, and the code generator writes
  \<open>cmp i, 5\<close> and \<open>jne loop_end\<close> for the \<open>CondJump\<close>: the jump to \<open>loop_end\<close> is
  taken when \<open>i\<close> differs from the bound, which it does at the start value 0. The
  \<open>entry\<close> block, which initializes \<open>i\<close>, is the last block of the function.
\<close>

theorem loop_from_0_to_5_lowering:
  "lower_cg [ASTLoop_cg (ASTLiteral_cg ''0'') (ASTLiteral_cg ''5'') []] =
     Inr \<lparr>fname_cg = ''_main'', blocks_cg =
       [\<lparr>name_cg = ''loop_cond'', instrs_cg = [instr_cg CondJump_cg [''i'', ''5'', ''loop_end''],
                                                instr_cg Jump_cg [''loop_body'']]\<rparr>,
        \<lparr>name_cg = ''loop_body'', instrs_cg = [instr_cg Add_cg [''i'', ''1''],
                                                instr_cg Jump_cg [''loop_cond'']]\<rparr>,
        \<lparr>name_cg = ''loop_end'', instrs_cg = []\<rparr>,
        \<lparr>name_cg = ''entry'', instrs_cg = [instr_cg Alloc_cg [''i''], instr_cg Store_cg [''i'', ''0''],
                                            instr_cg Jump_cg [''loop_cond'']]\<rparr>]\<rparr> \<and>
   emitInstr (instr_cg CondJump_cg [''i'', ''5'', ''loop_end'']) = Inr [''  cmp i, 5'', ''  jne loop_end''] \<and>
   emitInstr (instr_cg Jump_cg [''loop_body'']) = Inr [''  jmp loop_body'']"
  by (simp add: lower_cg_def literal_value_def emitInstr_def instr_cg_def)


end
